theory Spec2Isabelle
  imports Complex_Main "HOL-Library.Word"
begin

unbundle bit_operations_syntax

section \<open>Machine integers\<close>

text \<open>
  The simulator is C++ on fixed-width integers. \<open>uint8_t\<close>, \<open>uint16_t\<close>, \<open>int16_t\<close> and
  \<open>uint32_t\<close> are words of that width; an \<open>int16_t\<close> is read with \<open>sint\<close>, the unsigned
  types with \<open>unat\<close>. Arithmetic on words wraps around as the narrowing assignments of the
  source do.
\<close>

type_synonym u8 = "8 word"
type_synonym u16 = "16 word"
type_synonym i16 = "16 word"
type_synonym u32 = "32 word"

section \<open>Color (power/Color.h)\<close>

text \<open>
  \<open>Color\<close> is three 8-bit channels. The class lives in \<open>power/Color.h\<close>, which the simulator
  includes from the firmware tree; only its uses are in the simulator's sources
  (\<open>c.r\<close>, \<open>c.g\<close>, \<open>c.b\<close>, \<open>blend\<close>, \<open>maximize\<close>, \<open>scaled\<close>, \<open>+=\<close>).
\<close>

record Color =
  r :: u8
  g :: u8
  b :: u8

definition BLACK :: Color where
  "BLACK = \<lparr>r = 0, g = 0, b = 0\<rparr>"

text \<open>
  Modelled from the spec: \<open>Color::blend\<close> of \<open>power/Color.h\<close> is missing from the
  sources. The spec: "\<open>blend(weight, other)\<close> linearly interpolates each channel toward
  \<open>other\<close> using an 8-bit weight", with "0 = no blur, 255 = fully retain previous frame".
  One channel, computed in the naturals and narrowed to 8 bits.
\<close>

definition blend8 :: "u8 \<Rightarrow> u8 \<Rightarrow> u8 \<Rightarrow> u8" where
  "blend8 w a c = of_nat ((unat a * (255 - unat w) + unat c * unat w) div 255)"

definition Color_blend :: "u8 \<Rightarrow> Color \<Rightarrow> Color \<Rightarrow> Color" where
  "Color_blend w c other =
     \<lparr>r = blend8 w (r c) (r other), g = blend8 w (g c) (g other), b = blend8 w (b c) (b other)\<rparr>"

text \<open>
  Modelled from the spec: \<open>Color::maximize\<close> of \<open>power/Color.h\<close> is missing from the
  sources. The spec: "\<open>maximize(other)\<close> replaces each channel with the larger of itself and
  \<open>other\<close>".
\<close>

definition Color_maximize :: "Color \<Rightarrow> Color \<Rightarrow> Color" where
  "Color_maximize c other =
     \<lparr>r = max (r c) (r other), g = max (g c) (g other), b = max (b c) (b other)\<rparr>"

text \<open>
  Modelled from the spec: \<open>Color::scaled\<close> of \<open>power/Color.h\<close> is missing from the
  sources. The spec: "\<open>scale(factor)\<close> multiplies all channels by an 8-bit factor (over 255)
  and clamps".
\<close>

definition scale8 :: "u8 \<Rightarrow> u8 \<Rightarrow> u8" where
  "scale8 s a = of_nat (min 255 ((unat a * unat s) div 255))"

definition Color_scaled :: "Color \<Rightarrow> u8 \<Rightarrow> Color" where
  "Color_scaled c s = \<lparr>r = scale8 s (r c), g = scale8 s (g c), b = scale8 s (b c)\<rparr>"

text \<open>
  Modelled from the spec: \<open>Color::operator+=\<close> of \<open>power/Color.h\<close> is missing from the
  sources. The spec: "accumulates additively (saturating) into the existing cell value".
\<close>

definition add8 :: "u8 \<Rightarrow> u8 \<Rightarrow> u8" where
  "add8 a c = of_nat (min 255 (unat a + unat c))"

definition Color_add :: "Color \<Rightarrow> Color \<Rightarrow> Color" where
  "Color_add c other =
     \<lparr>r = add8 (r c) (r other), g = add8 (g c) (g other), b = add8 (b c) (b other)\<rparr>"

section \<open>Display (SimDisplay.h, SimDisplay.cpp)\<close>

text \<open>
  The static members of \<open>Display\<close>: \<open>Color cube[2][16][16][16]\<close>, the selector
  \<open>uint32_t cubeBuffer\<close> and \<open>uint8_t rawBuffer[16][16][16][3]\<close>. An array is a function
  of its index tuple; the code reads and writes it only at indices inside its bounds
  (the selector is 0 or 1, see \<open>Display_ok\<close>).
\<close>

record Display =
  cube :: "nat \<times> nat \<times> nat \<times> nat \<Rightarrow> Color"
  cubeBuffer :: u32
  rawBuffer :: "nat \<times> nat \<times> nat \<times> nat \<Rightarrow> u8"

text \<open>The selector indexes \<open>cube[2]\<close>: \<open>begin\<close> sets it to 0 and \<open>update\<close> to \<open>1 - cubeBuffer\<close>.\<close>

definition Display_ok :: "Display \<Rightarrow> bool" where
  "Display_ok d = (cubeBuffer d = 0 \<or> cubeBuffer d = 1)"

text \<open>\<open>Display::cube[Display::cubeBuffer][x][y][z]\<close>, as an index into \<open>cube\<close>.\<close>

definition cur :: "Display \<Rightarrow> nat \<Rightarrow> nat \<Rightarrow> nat \<Rightarrow> nat \<times> nat \<times> nat \<times> nat" where
  "cur d x y z = (unat (cubeBuffer d), x, y, z)"

text \<open>
  \<^verbatim>\<open>
  inline void voxel(const uint8_t x, const uint8_t y, const uint8_t z, const Color& c) {
      if (((x | y | z) & 0xF0) == 0) {
          Display::cube[Display::cubeBuffer][x][y][z] = c;
      }
  }
  \<close>
\<close>

definition voxel :: "u8 \<Rightarrow> u8 \<Rightarrow> u8 \<Rightarrow> Color \<Rightarrow> Display \<Rightarrow> Display" where
  "voxel x y z c d =
     (if (x OR y OR z) AND 0xF0 = 0
      then d\<lparr>cube := (cube d)(cur d (unat x) (unat y) (unat z) := c)\<rparr>
      else d)"

text \<open>
  \<^verbatim>\<open>
  void Display::clear() {
      memset(cube[cubeBuffer], 0, sizeof(cube[cubeBuffer]));
  }
  void Display::begin() {
      clear();
      cubeBuffer = 0;
  }
  \<close>
  \<open>memset\<close> zeroes every byte of the selected buffer, so each of its cells is black.
\<close>

definition clear :: "Display \<Rightarrow> Display" where
  "clear d =
     d\<lparr>cube := (\<lambda>(n, x, y, z). if n = unat (cubeBuffer d) then BLACK else cube d (n, x, y, z))\<rparr>"


text \<open>
  \<^verbatim>\<open>
  void Display::update() {
      uint8_t blur = simConfig.animation.motionBlur;
      uint32_t prev = 1 - cubeBuffer;
      for (int x = 0; x < 16; x++) {
          for (int y = 0; y < 16; y++) {
              for (int z = 0; z < 16; z++) {
                  // Real Color::blend modifies in place and returns reference
                  Color c = cube[cubeBuffer][x][y][z];
                  c.blend(blur, cube[prev][x][y][z]);
                  rawBuffer[x][y][z][0] = c.r;
                  rawBuffer[x][y][z][1] = c.g;
                  rawBuffer[x][y][z][2] = c.b;
              }
          }
      }
      // Swap buffers
      cubeBuffer = 1 - cubeBuffer;
      clear();
  }
  \<close>
  The weight \<open>simConfig.animation.motionBlur\<close> is the first argument. The loop body blends a
  copy \<open>c\<close> of the cell and stores the copy's channels in \<open>rawBuffer\<close>; \<open>cube\<close> is only read.
\<close>

definition update_cell ::
  "u8 \<Rightarrow> Display \<Rightarrow> nat \<Rightarrow> nat \<Rightarrow> nat \<Rightarrow> (nat \<times> nat \<times> nat \<times> nat \<Rightarrow> u8) \<Rightarrow> (nat \<times> nat \<times> nat \<times> nat \<Rightarrow> u8)" where
  "update_cell blur d x y z raw =
     (let prev = 1 - cubeBuffer d;
          c = Color_blend blur (cube d (unat (cubeBuffer d), x, y, z)) (cube d (unat prev, x, y, z))
      in raw((x, y, z, 0) := r c, (x, y, z, 1) := g c, (x, y, z, 2) := b c))"

definition update :: "u8 \<Rightarrow> Display \<Rightarrow> Display" where
  "update blur d =
     (let raw = fold (\<lambda>x. fold (\<lambda>y. fold (\<lambda>z. update_cell blur d x y z) [0..<16]) [0..<16])
                  [0..<16] (rawBuffer d)
      in clear (d\<lparr>rawBuffer := raw, cubeBuffer := 1 - cubeBuffer d\<rparr>))"

text \<open>The value \<open>update\<close> stores for a cell: the blend of the write-buffer's cell towards the
  other buffer's cell, and its channel \<open>k\<close> as \<open>rawBuffer[x][y][z][k]\<close> receives it.\<close>

definition blended :: "u8 \<Rightarrow> Display \<Rightarrow> nat \<Rightarrow> nat \<Rightarrow> nat \<Rightarrow> Color" where
  "blended blur d x y z =
     Color_blend blur (cube d (unat (cubeBuffer d), x, y, z)) (cube d (unat (1 - cubeBuffer d), x, y, z))"

definition chan :: "nat \<Rightarrow> Color \<Rightarrow> u8" where
  "chan k c = (if k = 0 then r c else if k = 1 then g c else b c)"

text \<open>
  \<^verbatim>\<open>
  inline void voxel(const Vector3& v, const Color& c) {
      int16_t x = (int16_t)(v.x + 32768.5f + CX) - 32768;
      int16_t y = (int16_t)(v.y + 32768.5f + CY) - 32768;
      int16_t z = (int16_t)(v.z + 32768.5f + CZ) - 32768;
      if (((x | y | z) & 0xFFF0) == 0) {
          Display::cube[Display::cubeBuffer][x][y][z] = c;
      }
  }
  inline void voxel_add(const Vector3& v, const Color& c) {
      ... the same three conversions ...
      if (((x | y | z) & 0xFFF0) == 0) {
          Display::cube[Display::cubeBuffer][x][y][z] += c;
      }
  }
  \<close>
  \<open>CX\<close>, \<open>CY\<close> and \<open>CZ\<close> are all \<open>7.5f\<close>, so the three conversions are one function of a
  component, \<open>t \<mapsto> (int16_t)(t + 32768.5f + 7.5f) - 32768\<close>. Its value is fixed by the
  platform's binary32 addition and its float-to-integer conversion (which C++ leaves
  undefined outside the range of \<open>int16_t\<close>), not by the program text: it is the parameter
  \<open>lattice\<close>, over any type \<open>'f\<close> of floats. \<open>voxel_at\<close> and \<open>voxel_add_at\<close> are the
  integer parts of the two functions, from the three converted coordinates on. In
  \<open>(x | y | z) & 0xFFF0\<close> the operands are promoted to \<open>int\<close>; the mask keeps bits 4 to 15,
  which are those of the 16-bit values.
\<close>

type_synonym 'f Vector3 = "'f \<times> 'f \<times> 'f"

definition voxel_at :: "i16 \<Rightarrow> i16 \<Rightarrow> i16 \<Rightarrow> Color \<Rightarrow> Display \<Rightarrow> Display" where
  "voxel_at x y z c d =
     (if (x OR y OR z) AND 0xFFF0 = 0
      then d\<lparr>cube := (cube d)(cur d (unat x) (unat y) (unat z) := c)\<rparr>
      else d)"

definition voxel_v3 :: "('f \<Rightarrow> i16) \<Rightarrow> 'f Vector3 \<Rightarrow> Color \<Rightarrow> Display \<Rightarrow> Display" where
  "voxel_v3 lattice v c d =
     (case v of (vx, vy, vz) \<Rightarrow> voxel_at (lattice vx) (lattice vy) (lattice vz) c d)"

definition voxel_add_at :: "i16 \<Rightarrow> i16 \<Rightarrow> i16 \<Rightarrow> Color \<Rightarrow> Display \<Rightarrow> Display" where
  "voxel_add_at x y z c d =
     (if (x OR y OR z) AND 0xFFF0 = 0
      then d\<lparr>cube := (cube d)(cur d (unat x) (unat y) (unat z) :=
                 Color_add (cube d (cur d (unat x) (unat y) (unat z))) c)\<rparr>
      else d)"

definition voxel_add :: "('f \<Rightarrow> i16) \<Rightarrow> 'f Vector3 \<Rightarrow> Color \<Rightarrow> Display \<Rightarrow> Display" where
  "voxel_add lattice v c d =
     (case v of (vx, vy, vz) \<Rightarrow> voxel_add_at (lattice vx) (lattice vy) (lattice vz) c d)"

text \<open>
  \<^verbatim>\<open>
  inline void radiate(const Vector3& v0, const Color& c, const float r) {
      Vector3 v = v0 + Vector3(CX, CY, CZ);
      int16_t x1 = (int16_t)(v.x - r + 1);
      int16_t x2 = (int16_t)(v.x + r);
      ... y1, y2, z1, z2 alike ...
      for (int16_t x = x1; x <= x2; x++)
          for (int16_t y = y1; y <= y2; y++)
              for (int16_t z = z1; z <= z2; z++) {
                  if (((x | y | z) & 0xFFF0) == 0) {
                      float radius = (Vector3(x, y, z) - v).magnitude();
                      if (radius < r) {
                          Display::cube[Display::cubeBuffer][x][y][z].maximize(
                              c.scaled(255 * (1 - (radius / r))));
                      }
                  }
              }
  }
  \<close>
  \<open>radiate5\<close> is the same text with \<open>255 / (1 + radius * radius * radius * radius * radius)\<close>
  as the argument of \<open>scaled\<close>. The integer part of both is \<open>radiate_sweep\<close>: the six
  bounds as converted, and \<open>intensity x y z\<close> for the float computation at a cell,
  \<open>None\<close> when \<open>radius < r\<close> is false and otherwise the 8-bit factor handed to \<open>scaled\<close>.

  A loop \<open>for (int16_t i = lo; i <= hi; i++)\<close> increments a 16-bit counter, which wraps
  from 32767 to -32768: with \<open>hi = 32767\<close> the test never fails. \<open>for_i16\<close> is the loop as
  written, \<open>None\<close> when it does not return.
\<close>

partial_function (option) for_i16 :: "(i16 \<Rightarrow> 's \<Rightarrow> 's option) \<Rightarrow> i16 \<Rightarrow> i16 \<Rightarrow> 's \<Rightarrow> 's option" where
  "for_i16 body hi i s =
     (if i \<le>s hi then Option.bind (body i s) (for_i16 body hi (i + 1)) else Some s)"

definition radiate_cell ::
  "(i16 \<Rightarrow> i16 \<Rightarrow> i16 \<Rightarrow> u8 option) \<Rightarrow> Color \<Rightarrow> i16 \<Rightarrow> i16 \<Rightarrow> i16 \<Rightarrow> Display \<Rightarrow> Display" where
  "radiate_cell intensity c x y z d =
     (if (x OR y OR z) AND 0xFFF0 = 0
      then (case intensity x y z of
              None \<Rightarrow> d
            | Some s \<Rightarrow>
                d\<lparr>cube := (cube d)(cur d (unat x) (unat y) (unat z) :=
                     Color_maximize (cube d (cur d (unat x) (unat y) (unat z))) (Color_scaled c s))\<rparr>)
      else d)"

definition radiate_sweep ::
  "(i16 \<Rightarrow> i16 \<Rightarrow> i16 \<Rightarrow> u8 option) \<Rightarrow> Color \<Rightarrow> i16 \<Rightarrow> i16 \<Rightarrow> i16 \<Rightarrow> i16 \<Rightarrow> i16 \<Rightarrow> i16 \<Rightarrow>
   Display \<Rightarrow> Display option" where
  "radiate_sweep intensity c x1 x2 y1 y2 z1 z2 d =
     for_i16 (\<lambda>x. for_i16 (\<lambda>y. for_i16 (\<lambda>z d'. Some (radiate_cell intensity c x y z d')) z2 z1) y2 y1)
       x2 x1 d"

text \<open>
  What one call of a drawing primitive leaves alone: the selector, the raw buffer and
  every cell of the buffer that is not selected.
\<close>

definition same_outside :: "Display \<Rightarrow> Display \<Rightarrow> bool" where
  "same_outside d d' =
     (cubeBuffer d' = cubeBuffer d \<and> rawBuffer d' = rawBuffer d \<and>
      (\<forall>n x y z. n \<noteq> unat (cubeBuffer d) \<longrightarrow> cube d' (n, x, y, z) = cube d (n, x, y, z)))"

text \<open>
  One call of a client during a frame: \<open>voxel\<close> on lattice coordinates, \<open>voxel\<close> and
  \<open>voxel_add\<close> on a \<open>Vector3\<close>, or a \<open>radiate\<close> or \<open>radiate5\<close> that returns.
\<close>

inductive client_write :: "('f \<Rightarrow> i16) \<Rightarrow> Display \<Rightarrow> Display \<Rightarrow> bool" for lattice :: "'f \<Rightarrow> i16" where
  write_voxel: "client_write lattice d (voxel x y z c d)"
| write_voxel_v3: "client_write lattice d (voxel_v3 lattice v c d)"
| write_voxel_add: "client_write lattice d (voxel_add lattice v c d)"
| write_radiate: "radiate_sweep intensity c x1 x2 y1 y2 z1 z2 d = Some d' \<Longrightarrow> client_write lattice d d'"

text \<open>
  The statically allocated display before \<open>begin\<close>: every byte zero. \<open>RED\<close> is
  \<open>Color(255, 0, 0)\<close>.
\<close>

definition Display_zero :: Display where
  "Display_zero = \<lparr>cube = (\<lambda>_. BLACK), cubeBuffer = 0, rawBuffer = (\<lambda>_. 0)\<rparr>"

definition RED :: Color where
  "RED = \<lparr>r = 255, g = 0, b = 0\<rparr>"

text \<open>
  A sample value for the parameter \<open>lattice\<close>, used where a theorem is instantiated. It is
  not the code's conversion \<open>(int16_t)(t + 32768.5f + 7.5f) - 32768\<close>: it adds in exact
  rational arithmetic where the code rounds each sum to binary32 (at \<open>t = 1023/1024\<close> the
  code's sums round to 32777 and give 9, this gives 8), and it truncates and keeps the low
  16 bits where the code's cast of a value above 32767, which every in-range cell goes
  through, is undefined in C++.
\<close>

definition lattice_exact :: "rat \<Rightarrow> i16" where
  "lattice_exact t = word_of_int \<lfloor>t + 32768.5 + 7.5\<rfloor> - 32768"

section \<open>LifeDemo (main.cpp)\<close>

text \<open>
  The members of \<open>LifeDemo\<close> that \<open>game_progress\<close> reads and writes:
  \<^verbatim>\<open>
  uint16_t cells_g1[16][16];
  uint16_t cells_g2[16][16];
  enum class rule_t : uint8_t { DIE = 0, LIVE = 1, BIRTH = 2 };
  rule_t rules[27];
  uint32_t hash_list[256];
  uint32_t hash_nr = 0;
  uint16_t living = 0;
  uint8_t sequence = 0;
  \<close>
  Bit \<open>z\<close> of \<open>cells[x][y]\<close> is the cell \<open>(x, y, z)\<close>.
\<close>

datatype rule_t = DIE | LIVE | BIRTH

record LifeDemo =
  cells_g1 :: "nat \<times> nat \<Rightarrow> u16"
  cells_g2 :: "nat \<times> nat \<Rightarrow> u16"
  rules :: "nat \<Rightarrow> rule_t"
  hash_list :: "nat \<Rightarrow> u32"
  hash_nr :: u32
  living :: u16
  sequence :: u8

text \<open>
  \<^verbatim>\<open>
  void game_rule_reset() {
      for (uint8_t i = 0; i < 27; i++) rules[i] = rule_t::DIE;
  }
  void game_reset() {
      living = hash_nr = 0;
      for (uint8_t x = 0; x < 16; x++)
          for (uint8_t y = 0; y < 16; y++) {
              cells_g1[x][y] = 0;
              cells_g2[x][y] = 0;
          }
      game_rule_reset();
  }
  \<close>
\<close>

definition game_rule_reset :: "LifeDemo \<Rightarrow> LifeDemo" where
  "game_rule_reset st = st\<lparr>rules := (\<lambda>i. if i < 27 then DIE else rules st i)\<rparr>"

definition game_reset :: "LifeDemo \<Rightarrow> LifeDemo" where
  "game_reset st =
     game_rule_reset
       (st\<lparr>living := 0, hash_nr := 0,
           cells_g1 := (\<lambda>(x, y). if x < 16 \<and> y < 16 then 0 else cells_g1 st (x, y)),
           cells_g2 := (\<lambda>(x, y). if x < 16 \<and> y < 16 then 0 else cells_g2 st (x, y))\<rparr>)"

text \<open>
  \<^verbatim>\<open>
  void game_randomize(uint16_t amount, float rad) {
      for (int16_t x = 0; x < 16; x++)
          for (int16_t y = 0; y < 16; y++)
              cells_g2[x][y] = 0;
      for (uint16_t i = 0; i < amount; i++) {
          float r = noise.nextRandom(0, rad);
          float theta = noise.nextRandom(0, 2 * PI);
          float psi = noise.nextRandom(0, 2 * PI);
          uint16_t x = (uint16_t)roundf(7.5f + r * sinf(psi) * cosf(theta));
          uint16_t y = (uint16_t)roundf(7.5f + r * sinf(psi) * sinf(theta));
          uint16_t z = (uint16_t)roundf(7.5f + r * cosf(psi));
          if (x < 16 && y < 16 && z < 16)
              cells_g2[x][y] |= (1 << z);
      }
      living = amount;
  }
  \<close>
  The three draws of iteration \<open>i\<close> and the float arithmetic on them end in the triple
  \<open>(x, y, z)\<close> of 16-bit values; \<open>sample i\<close> is that triple, any function of \<open>i\<close>. The
  radius \<open>rad\<close> enters the result only through the draws.
\<close>

definition place :: "u16 \<times> u16 \<times> u16 \<Rightarrow> (nat \<times> nat \<Rightarrow> u16) \<Rightarrow> (nat \<times> nat \<Rightarrow> u16)" where
  "place p cells =
     (case p of (x, y, z) \<Rightarrow>
        if x < 16 \<and> y < 16 \<and> z < 16
        then cells((unat x, unat y) := cells (unat x, unat y) OR push_bit (unat z) 1)
        else cells)"

definition game_randomize :: "u16 \<Rightarrow> (nat \<Rightarrow> u16 \<times> u16 \<times> u16) \<Rightarrow> LifeDemo \<Rightarrow> LifeDemo" where
  "game_randomize amount sample st =
     st\<lparr>cells_g2 := fold (\<lambda>i. place (sample i)) [0..<unat amount]
                       (\<lambda>(x, y). if x < 16 \<and> y < 16 then 0 else cells_g2 st (x, y)),
        living := amount\<rparr>"

text \<open>
  \<^verbatim>\<open>
  uint16_t count_neighbours(int16_t x_, int16_t y_, int16_t z_) {
      uint16_t neighbours = 0;
      for (int16_t x = x_ - 1; x <= x_ + 1; x++)
          for (int16_t y = y_ - 1; y <= y_ + 1; y++) {
              uint16_t cells = cells_g1[x & 0xF][y & 0xF];
              for (int16_t z = z_ - 1; z <= z_ + 1; z++) {
                  uint16_t cell = cells & (1 << (z & 0xF));
                  if (!(x == x_ && y == y_ && z == z_) && cell)
                      neighbours++;
              }
          }
      return neighbours;
  }
  \<close>
  The only caller passes coordinates from 0 to 15. For every argument from -32767 to
  32765 each loop runs over the three values \<open>c - 1\<close>, \<open>c\<close>, \<open>c + 1\<close>, a negative \<open>x\<close>
  is masked in two's complement (\<open>-1 & 0xF\<close> is 15). Outside that range the code differs
  from the fold below (at 32766 and 32767 the bound \<open>c + 1\<close> is not passed by a 16-bit
  counter and the loop does not end, at -32768 it runs no iteration). The arguments
  \<open>x_\<close>, \<open>y_\<close>, \<open>z_\<close> are \<open>x0\<close>, \<open>y0\<close>, \<open>z0\<close> here; \<open>count_cell\<close> is the body of the
  innermost loop.
\<close>

definition count_cell :: "i16 \<Rightarrow> i16 \<Rightarrow> i16 \<Rightarrow> i16 \<Rightarrow> i16 \<Rightarrow> u16 \<Rightarrow> i16 \<Rightarrow> u16 \<Rightarrow> u16" where
  "count_cell x0 y0 z0 x y cells z neighbours =
     (let cell = cells AND push_bit (unat (z AND 0xF)) 1
      in if \<not> (x = x0 \<and> y = y0 \<and> z = z0) \<and> cell \<noteq> 0 then neighbours + 1 else neighbours)"

definition count_neighbours :: "(nat \<times> nat \<Rightarrow> u16) \<Rightarrow> i16 \<Rightarrow> i16 \<Rightarrow> i16 \<Rightarrow> u16" where
  "count_neighbours g1 x0 y0 z0 =
     fold (\<lambda>x. fold (\<lambda>y neighbours.
             let cells = g1 (unat (x AND 0xF), unat (y AND 0xF))
             in fold (count_cell x0 y0 z0 x y cells) [z0 - 1, z0, z0 + 1] neighbours)
           [y0 - 1, y0, y0 + 1])
       [x0 - 1, x0, x0 + 1] 0"

text \<open>
  \<^verbatim>\<open>
  uint32_t game_next_generation() {
      uint16_t new_living = 0;
      uint32_t hash = 0;
      memcpy(cells_g1, cells_g2, sizeof(cells_g1));
      for (int16_t x = 0; x < 16; x++) {
          for (int16_t y = 0; y < 16; y++) {
              uint16_t cells = cells_g1[x][y];
              for (int16_t z = 0; z < 16; z++) {
                  uint16_t count = count_neighbours(x, y, z);
                  hash += count * (x * 3 + y * 5 + z * 7);
                  if (rules[count] == rule_t::DIE)
                      cells &= ~(1 << z);
                  else if (rules[count] == rule_t::BIRTH)
                      cells |= (1 << z);
                  if (cells & (1 << z)) new_living++;
              }
              cells_g2[x][y] = cells;
          }
      }
      living = new_living;
      return hash;
  }
  \<close>
  \<open>gen_cell\<close> is the body of the innermost loop on the three values it carries,
  \<open>gen_column\<close> the body of the \<open>y\<close> loop. The product \<open>count * (x * 3 + y * 5 + z * 7)\<close>
  is an \<open>int\<close> (at most 26 * 225) added to the unsigned 32-bit \<open>hash\<close>.
\<close>

definition gen_cell ::
  "(nat \<times> nat \<Rightarrow> u16) \<Rightarrow> (nat \<Rightarrow> rule_t) \<Rightarrow> nat \<Rightarrow> nat \<Rightarrow> nat \<Rightarrow> u16 \<times> u16 \<times> u32 \<Rightarrow> u16 \<times> u16 \<times> u32" where
  "gen_cell g1 rl x y z acc =
     (case acc of (cells, new_living, hash) \<Rightarrow>
        let count = count_neighbours g1 (of_nat x) (of_nat y) (of_nat z);
            hash' = hash + of_nat (unat count * (x * 3 + y * 5 + z * 7));
            cells' = (if rl (unat count) = DIE then cells AND NOT (push_bit z 1)
                      else if rl (unat count) = BIRTH then cells OR push_bit z 1
                      else cells);
            new_living' = (if cells' AND push_bit z 1 \<noteq> 0 then new_living + 1 else new_living)
        in (cells', new_living', hash'))"

definition gen_column ::
  "(nat \<times> nat \<Rightarrow> u16) \<Rightarrow> (nat \<Rightarrow> rule_t) \<Rightarrow> nat \<Rightarrow> nat \<Rightarrow>
   (nat \<times> nat \<Rightarrow> u16) \<times> u16 \<times> u32 \<Rightarrow> (nat \<times> nat \<Rightarrow> u16) \<times> u16 \<times> u32" where
  "gen_column g1 rl x y acc =
     (case acc of (g2, new_living, hash) \<Rightarrow>
        case fold (gen_cell g1 rl x y) [0..<16] (g1 (x, y), new_living, hash) of
          (cells, new_living', hash') \<Rightarrow> (g2((x, y) := cells), new_living', hash'))"

definition game_next_generation :: "LifeDemo \<Rightarrow> u32 \<times> LifeDemo" where
  "game_next_generation st =
     (let g1 = cells_g2 st
      in case fold (\<lambda>x. fold (gen_column g1 (rules st) x) [0..<16]) [0..<16] (cells_g2 st, 0, 0) of
           (g2, new_living, hash) \<Rightarrow>
             (hash, st\<lparr>cells_g1 := g1, cells_g2 := g2, living := new_living\<rparr>))"

text \<open>
  \<^verbatim>\<open>
  void game_progress() {
      uint32_t hash = game_next_generation();
      if (living == 0) {
          game_reset();
          switch (sequence++) {
              case 0:  // Life 4555
                  rules[4] = rule_t::LIVE;
                  rules[5] = rule_t::BIRTH;
                  game_randomize((uint16_t)(200 + rand() % 200), noise.nextRandom(5.0f, 7.0f));
                  break;
              case 1:  // Life 5766
                  rules[5] = rule_t::LIVE;
                  rules[7] = rule_t::LIVE;
                  rules[6] = rule_t::BIRTH;
                  game_randomize((uint16_t)(200 + rand() % 200), noise.nextRandom(5.0f, 7.0f));
                  break;
              case 2:  // Life 5655
                  rules[5] = rule_t::BIRTH;
                  rules[6] = rule_t::LIVE;
                  game_randomize((uint16_t)(200 + rand() % 200), noise.nextRandom(5.0f, 7.0f));
                  break;
              case 3:  // Life 5855
              default:
                  sequence = 0;
                  rules[5] = rule_t::BIRTH;
                  rules[6] = rule_t::LIVE;
                  rules[7] = rule_t::LIVE;
                  rules[8] = rule_t::LIVE;
                  game_randomize(25, 3.0f);
                  break;
          }
      } else {
          uint8_t matches = 0;
          for (uint8_t i = 0; i < hash_nr && i <= 255; i++)
              if (hash_list[i] == hash) matches++;
          if (matches >= 6 || living >= 500) {
              game_rule_reset();
              game_next_generation();
          } else {
              hash_list[hash_nr++ & 0xFF] = hash;
          }
      }
  }
  \<close>
  \<open>reseed\<close> is the \<open>switch\<close>: \<open>rnd\<close> is the value \<open>rand()\<close> returns (a non-negative
  \<open>int\<close>), \<open>sample\<close> the draws of \<open>game_randomize\<close>.

  \<open>scan_hashes\<close> is the \<open>for\<close> loop over \<open>hash_list\<close>, as written: its index \<open>i\<close> and
  the counter \<open>matches\<close> are 8-bit and wrap around, \<open>i < hash_nr\<close> compares the index,
  converted to 32 bits, with the 32-bit \<open>hash_nr\<close>, and \<open>i <= 255\<close> compares the promoted
  8-bit value with 255. The result is \<open>None\<close> when the loop does not return.
\<close>

definition reseed :: "nat \<Rightarrow> (nat \<Rightarrow> u16 \<times> u16 \<times> u16) \<Rightarrow> LifeDemo \<Rightarrow> LifeDemo" where
  "reseed rnd sample st =
     (let seq = sequence st; st1 = st\<lparr>sequence := seq + 1\<rparr>
      in if seq = 0 then
           game_randomize (of_nat (200 + rnd mod 200)) sample
             (st1\<lparr>rules := (rules st1)(4 := LIVE, 5 := BIRTH)\<rparr>)
         else if seq = 1 then
           game_randomize (of_nat (200 + rnd mod 200)) sample
             (st1\<lparr>rules := (rules st1)(5 := LIVE, 7 := LIVE, 6 := BIRTH)\<rparr>)
         else if seq = 2 then
           game_randomize (of_nat (200 + rnd mod 200)) sample
             (st1\<lparr>rules := (rules st1)(5 := BIRTH, 6 := LIVE)\<rparr>)
         else
           game_randomize 25 sample
             (st1\<lparr>sequence := 0, rules := (rules st1)(5 := BIRTH, 6 := LIVE, 7 := LIVE, 8 := LIVE)\<rparr>))"

partial_function (option) scan_hashes :: "(nat \<Rightarrow> u32) \<Rightarrow> u32 \<Rightarrow> u32 \<Rightarrow> u8 \<Rightarrow> u8 \<Rightarrow> u8 option" where
  "scan_hashes hl hnr hash i matches =
     (if (ucast i :: u32) < hnr \<and> unat i \<le> 255
      then scan_hashes hl hnr hash (i + 1) (if hl (unat i) = hash then matches + 1 else matches)
      else Some matches)"

definition game_progress :: "nat \<Rightarrow> (nat \<Rightarrow> u16 \<times> u16 \<times> u16) \<Rightarrow> LifeDemo \<Rightarrow> LifeDemo option" where
  "game_progress rnd sample st0 =
     (case game_next_generation st0 of (hash, st) \<Rightarrow>
        if living st = 0 then Some (reseed rnd sample (game_reset st))
        else
          (case scan_hashes (hash_list st) (hash_nr st) hash 0 0 of
             None \<Rightarrow> None
           | Some matches \<Rightarrow>
               if 6 \<le> matches \<or> 500 \<le> living st
               then Some (snd (game_next_generation (game_rule_reset st)))
               else Some (st\<lparr>hash_list := (hash_list st)(unat (hash_nr st AND 0xFF) := hash),
                             hash_nr := hash_nr st + 1\<rparr>)))"

section \<open>The neighbourhood of a cell, from the spec\<close>

text \<open>
  The spec's words for what \<open>count_neighbours\<close> counts: "the 26 cells in the enclosing
  3x3x3 block (excluding itself) using wraparound (toroidal) addressing on all three axes
  (neighbor coordinates are masked modulo 16, not clamped)". \<open>wrap16 a d\<close> is the
  coordinate \<open>a + d\<close> modulo 16, \<open>offsets26\<close> the 26 offsets of the block other than
  \<open>(0, 0, 0)\<close>, \<open>neighbours26\<close> the cells at these offsets and \<open>alive\<close> the bit of a cell.
\<close>

definition wrap16 :: "nat \<Rightarrow> int \<Rightarrow> nat" where
  "wrap16 a d = nat ((int a + d) mod 16)"

definition alive :: "(nat \<times> nat \<Rightarrow> u16) \<Rightarrow> nat \<times> nat \<times> nat \<Rightarrow> bool" where
  "alive cells p = (case p of (x, y, z) \<Rightarrow> bit (cells (x, y)) z)"

definition offsets26 :: "(int \<times> int \<times> int) list" where
  "offsets26 = filter (\<lambda>p. p \<noteq> (0, 0, 0)) (List.product [-1, 0, 1] (List.product [-1, 0, 1] [-1, 0, 1]))"

definition neighbours26 :: "nat \<Rightarrow> nat \<Rightarrow> nat \<Rightarrow> (nat \<times> nat \<times> nat) list" where
  "neighbours26 x y z = map (\<lambda>(dx, dy, dz). (wrap16 x dx, wrap16 y dy, wrap16 z dz)) offsets26"

text \<open>
  For the proofs: \<open>hit\<close> is the test \<open>count_cell\<close> makes on the loop variables, and
  \<open>cell_of\<close> the array cell the masked loop variables address.
\<close>

definition hit :: "(nat \<times> nat \<Rightarrow> u16) \<Rightarrow> i16 \<Rightarrow> i16 \<Rightarrow> i16 \<Rightarrow> i16 \<times> i16 \<times> i16 \<Rightarrow> bool" where
  "hit g1 x0 y0 z0 p = (case p of (x, y, z) \<Rightarrow> \<not> (x = x0 \<and> y = y0 \<and> z = z0) \<and>
      bit (g1 (unat (x AND 0xF), unat (y AND 0xF))) (unat (z AND 0xF)))"

definition cell_of :: "i16 \<times> i16 \<times> i16 \<Rightarrow> nat \<times> nat \<times> nat" where
  "cell_of p = (case p of (x, y, z) \<Rightarrow> (unat (x AND 0xF), unat (y AND 0xF), unat (z AND 0xF)))"

text \<open>A grid with one live cell, in the corner \<open>(15, 15, 15)\<close>.\<close>

definition corner_grid :: "nat \<times> nat \<Rightarrow> u16" where
  "corner_grid = (\<lambda>_. 0)((15, 15) := push_bit 15 1)"

section \<open>The next generation and the presets, from the spec\<close>

text \<open>
  The spec's words for a step: "Look up the rule table by neighbor count to decide
  die/stay-alive/birth for the next generation". \<open>rule_bit\<close> is the decision of a rule on
  a cell, \<open>next_alive\<close> the state of the cell \<open>(x, y, z)\<close> in the next generation,
  \<open>all_cells\<close> the 4096 cells in the order the loops visit them and \<open>next_column\<close> the
  16-bit column \<open>(x, y)\<close> that the loop over \<open>z\<close> leaves in \<open>cells\<close>.
\<close>

definition rule_bit :: "rule_t \<Rightarrow> bool \<Rightarrow> bool" where
  "rule_bit rule old = (case rule of DIE \<Rightarrow> False | LIVE \<Rightarrow> old | BIRTH \<Rightarrow> True)"

definition next_alive :: "(nat \<times> nat \<Rightarrow> u16) \<Rightarrow> (nat \<Rightarrow> rule_t) \<Rightarrow> nat \<times> nat \<times> nat \<Rightarrow> bool" where
  "next_alive g1 rl p =
     (case p of (x, y, z) \<Rightarrow>
        (case rl (unat (count_neighbours g1 (of_nat x) (of_nat y) (of_nat z))) of
           DIE \<Rightarrow> False
         | LIVE \<Rightarrow> bit (g1 (x, y)) z
         | BIRTH \<Rightarrow> True))"

definition all_cells :: "(nat \<times> nat \<times> nat) list" where
  "all_cells = List.product [0..<16] (List.product [0..<16] [0..<16])"

definition next_column :: "(nat \<times> nat \<Rightarrow> u16) \<Rightarrow> (nat \<Rightarrow> rule_t) \<Rightarrow> nat \<Rightarrow> nat \<Rightarrow> u16" where
  "next_column g1 rl x y = fst (fold (gen_cell g1 rl x y) [0..<16] (g1 (x, y), 0, 0))"

text \<open>
  The four presets of the \<open>switch\<close> in \<open>game_progress\<close>, by the value of \<open>sequence\<close>
  before the increment: the rule table (every entry \<open>DIE\<close> but those the case assigns), the
  amount handed to \<open>game_randomize\<close>, and the value of \<open>sequence\<close> after the case.
  \<open>placed p q\<close>: the draw \<open>p\<close> passes the test \<open>x < 16 && y < 16 && z < 16\<close> and sets the
  cell \<open>q\<close>.
\<close>

definition preset_rules :: "u8 \<Rightarrow> nat \<Rightarrow> rule_t" where
  "preset_rules seq i =
     (if seq = 0 then (if i = 4 then LIVE else if i = 5 then BIRTH else DIE)
      else if seq = 1 then (if i = 5 \<or> i = 7 then LIVE else if i = 6 then BIRTH else DIE)
      else if seq = 2 then (if i = 5 then BIRTH else if i = 6 then LIVE else DIE)
      else (if i = 5 then BIRTH else if i = 6 \<or> i = 7 \<or> i = 8 then LIVE else DIE))"

definition preset_amount :: "u8 \<Rightarrow> nat \<Rightarrow> u16" where
  "preset_amount seq rnd = (if seq = 0 \<or> seq = 1 \<or> seq = 2 then of_nat (200 + rnd mod 200) else 25)"

definition next_sequence :: "u8 \<Rightarrow> u8" where
  "next_sequence seq = (if seq = 0 \<or> seq = 1 \<or> seq = 2 then seq + 1 else 0)"

definition placed :: "u16 \<times> u16 \<times> u16 \<Rightarrow> nat \<times> nat \<times> nat \<Rightarrow> bool" where
  "placed p q = (case p of (x, y, z) \<Rightarrow> x < 16 \<and> y < 16 \<and> z < 16 \<and> q = (unat x, unat y, unat z))"

text \<open>
  Sample states. \<open>single_cell_state\<close>: one live cell \<open>(7, 7, 7)\<close> under the all-die rule
  table. \<open>block_state n\<close>: the 2x2x2 block of the cells with coordinates 7 and 8, under
  the rule table of the fourth preset (5 gives birth; 6, 7 and 8 keep alive), with
  \<open>hash_nr = n\<close> and pairwise different recorded hashes. Every cell of the block has the
  seven others as neighbours.
\<close>

definition single_cell_state :: LifeDemo where
  "single_cell_state =
     \<lparr>cells_g1 = (\<lambda>_. 0), cells_g2 = (\<lambda>_. 0)((7, 7) := push_bit 7 1), rules = (\<lambda>_. DIE),
      hash_list = (\<lambda>_. 0), hash_nr = 0, living = 1, sequence = 0\<rparr>"

definition block_grid :: "nat \<times> nat \<Rightarrow> u16" where
  "block_grid = (\<lambda>(x, y). if (x = 7 \<or> x = 8) \<and> (y = 7 \<or> y = 8) then 0x180 else 0)"

definition block_state :: "u32 \<Rightarrow> LifeDemo" where
  "block_state n =
     \<lparr>cells_g1 = block_grid, cells_g2 = block_grid,
      rules = (\<lambda>_. DIE)(5 := BIRTH, 6 := LIVE, 7 := LIVE, 8 := LIVE),
      hash_list = of_nat, hash_nr = n, living = 8, sequence = 0\<rparr>"

text \<open>
  \<open>stagnant_state\<close>: the block after six generations, each of which recorded the same
  hash, the hash of the block's next generation.
\<close>

definition stagnant_state :: LifeDemo where
  "stagnant_state = (block_state 6)\<lparr>hash_list := (\<lambda>_. fst (game_next_generation (block_state 6)))\<rparr>"

section \<open>The bounds test of the lattice accessors\<close>

lemma or3_and_zero:
  "((x :: 'a::len word) OR y OR z) AND m = 0 \<longleftrightarrow> x AND m = 0 \<and> y AND m = 0 \<and> z AND m = 0"
  by (auto simp: bit_eq_iff bit_and_iff bit_or_iff)

lemma and_not_mask_zero:
  "(x :: 'a::len word) AND NOT (mask n) = 0 \<longleftrightarrow> x AND mask n = x"
  by (auto simp: bit_eq_iff bit_and_iff bit_not_iff)

lemma fifteen_mask: "(15 :: 'a::len word) = mask 4"
  by (simp add: mask_eq_exp_minus_1)

lemma and_F0_zero: "(x :: u8) AND 0xF0 = 0 \<longleftrightarrow> unat x < 16"
proof -
  have F0: "(0xF0 :: u8) = NOT 15" by simp
  have "(x AND 0xF0 = 0) = (x AND NOT (mask 4) = 0)"
    by (simp only: F0 fifteen_mask)
  also have "\<dots> = (x AND mask 4 = x)" by (rule and_not_mask_zero)
  also have "\<dots> = (x < 2 ^ 4)" by (rule mask_eq_iff_w2p) (simp add: word_size)
  also have "\<dots> = (unat x < 16)" by (simp add: word_less_nat_alt)
  finally show ?thesis .
qed

lemma and_FFF0_zero: "(x :: i16) AND 0xFFF0 = 0 \<longleftrightarrow> unat x < 16"
proof -
  have F0: "(0xFFF0 :: i16) = NOT 15" by simp
  have "(x AND 0xFFF0 = 0) = (x AND NOT (mask 4) = 0)"
    by (simp only: F0 fifteen_mask)
  also have "\<dots> = (x AND mask 4 = x)" by (rule and_not_mask_zero)
  also have "\<dots> = (x < 2 ^ 4)" by (rule mask_eq_iff_w2p) (simp add: word_size)
  also have "\<dots> = (unat x < 16)" by (simp add: word_less_nat_alt)
  finally show ?thesis .
qed

lemma voxel_test: "((x :: u8) OR y OR z) AND 0xF0 = 0 \<longleftrightarrow> unat x < 16 \<and> unat y < 16 \<and> unat z < 16"
  by (subst or3_and_zero) (simp only: and_F0_zero)

section \<open>The frame advance and the drawing primitives\<close>

lemma blend8_255: "blend8 255 a c = c"
  by (simp add: blend8_def)

lemma Color_blend_255: "Color_blend 255 c other = other"
  by (simp add: Color_blend_def blend8_255)

lemma fold_z: "fold (\<lambda>z. update_cell blur d x y z) zs raw (x', y', z', k) =
  (if x' = x \<and> y' = y \<and> z' \<in> set zs \<and> k < 3 then chan k (blended blur d x y z') else raw (x', y', z', k))"
  apply (induction zs arbitrary: raw)
   apply simp
  apply (auto simp: update_cell_def Let_def blended_def chan_def)
  done

lemma fold_y: "fold (\<lambda>y. fold (\<lambda>z. update_cell blur d x y z) zs) ys raw (x', y', z', k) =
  (if x' = x \<and> y' \<in> set ys \<and> z' \<in> set zs \<and> k < 3 then chan k (blended blur d x y' z') else raw (x', y', z', k))"
  by (induction ys arbitrary: raw) (auto simp: fold_z)

lemma fold_x: "fold (\<lambda>x. fold (\<lambda>y. fold (\<lambda>z. update_cell blur d x y z) zs) ys) xs raw (x', y', z', k) =
  (if x' \<in> set xs \<and> y' \<in> set ys \<and> z' \<in> set zs \<and> k < 3 then chan k (blended blur d x' y' z') else raw (x', y', z', k))"
  by (induction xs arbitrary: raw) (auto simp: fold_y)

lemma update_raw: "rawBuffer (update blur d) (x, y, z, k) =
  (if x < 16 \<and> y < 16 \<and> z < 16 \<and> k < 3 then chan k (blended blur d x y z) else rawBuffer d (x, y, z, k))"
  by (simp add: update_def clear_def Let_def fold_x)

lemma update_cube: "cube (update blur d) (n, x, y, z) =
  (if n = unat (1 - cubeBuffer d) then BLACK else cube d (n, x, y, z))"
  by (simp add: update_def clear_def Let_def)

lemma update_cubeBuffer: "cubeBuffer (update blur d) = 1 - cubeBuffer d"
  by (simp add: update_def clear_def Let_def)

lemma flip_neq: "Display_ok d \<Longrightarrow> unat (1 - cubeBuffer d) \<noteq> unat (cubeBuffer d)"
  by (auto simp: Display_ok_def)

lemma update_ok: "Display_ok d \<Longrightarrow> Display_ok (update blur d)"
  by (auto simp: Display_ok_def update_cubeBuffer)

lemma for_i16_invariant:
  assumes run: "for_i16 body hi i s = Some s'"
    and start: "P s"
    and step: "\<And>j t t'. P t \<Longrightarrow> body j t = Some t' \<Longrightarrow> P t'"
  shows "P s'"
proof -
  let ?Q = "\<lambda>(body :: i16 \<Rightarrow> 'a \<Rightarrow> 'a option) (hi :: i16) (i :: i16) s s'.
           (\<forall>j t t'. P t \<longrightarrow> body j t = Some t' \<longrightarrow> P t') \<longrightarrow> P s \<longrightarrow> P s'"
  have "?Q body hi i s s'"
  proof (rule for_i16.raw_induct [where P = ?Q, OF _ run])
    fix loop :: "(i16 \<Rightarrow> 'a \<Rightarrow> 'a option) \<Rightarrow> i16 \<Rightarrow> i16 \<Rightarrow> 'a \<Rightarrow> 'a option"
    fix body hi i s s'
    assume IH: "\<And>body hi i s s'. loop body hi i s = Some s' \<Longrightarrow> ?Q body hi i s s'"
      and eq: "(if i \<le>s hi then Option.bind (body i s) (loop body hi (i + 1)) else Some s) = Some s'"
    show "?Q body hi i s s'"
    proof (intro impI)
      assume st: "\<forall>j t t'. P t \<longrightarrow> body j t = Some t' \<longrightarrow> P t'" and s: "P s"
      show "P s'"
      proof (cases "i \<le>s hi")
        case True
        with eq obtain t where t: "body i s = Some t" and rest: "loop body hi (i + 1) t = Some s'"
          by (auto simp: bind_eq_Some_conv)
        from st s t have "P t" by blast
        with IH [OF rest] st show ?thesis by blast
      next
        case False
        with eq s show ?thesis by simp
      qed
    qed
  qed
  with start step show ?thesis by blast
qed

lemma radiate_cell_other:
  "n \<noteq> unat (cubeBuffer d) \<Longrightarrow> cube (radiate_cell intensity c x y z d) (n, x', y', z') = cube d (n, x', y', z')"
  by (simp add: radiate_cell_def cur_def split: option.splits)

lemma radiate_cell_cubeBuffer: "cubeBuffer (radiate_cell intensity c x y z d) = cubeBuffer d"
  by (simp add: radiate_cell_def split: option.splits)

lemma radiate_cell_rawBuffer: "rawBuffer (radiate_cell intensity c x y z d) = rawBuffer d"
  by (simp add: radiate_cell_def split: option.splits)

lemma radiate_sweep_frame:
  assumes "radiate_sweep intensity c x1 x2 y1 y2 z1 z2 d = Some d'"
  shows "same_outside d d'"
proof -
  have cell: "\<And>x y z t. same_outside d t \<Longrightarrow> same_outside d (radiate_cell intensity c x y z t)"
    by (simp add: same_outside_def radiate_cell_other radiate_cell_cubeBuffer radiate_cell_rawBuffer)
  have zs: "\<And>x y t t'. same_outside d t \<Longrightarrow>
      for_i16 (\<lambda>z d'. Some (radiate_cell intensity c x y z d')) z2 z1 t = Some t' \<Longrightarrow> same_outside d t'"
    by (erule for_i16_invariant [rotated, where P = "same_outside d"]) (auto intro: cell)
  have ys: "\<And>x t t'. same_outside d t \<Longrightarrow>
      for_i16 (\<lambda>y. for_i16 (\<lambda>z d'. Some (radiate_cell intensity c x y z d')) z2 z1) y2 y1 t = Some t' \<Longrightarrow> same_outside d t'"
    by (erule for_i16_invariant [rotated, where P = "same_outside d"]) (auto intro: zs)
  have d: "same_outside d d" by (simp add: same_outside_def)
  from assms show ?thesis
    unfolding radiate_sweep_def
    by (rule for_i16_invariant [where P = "same_outside d"]) (auto intro: d ys)
qed

lemma same_outside_refl: "same_outside d d"
  by (simp add: same_outside_def)

lemma same_outside_trans: "same_outside d e \<Longrightarrow> same_outside e f \<Longrightarrow> same_outside d f"
  by (simp add: same_outside_def)

lemma voxel_frame: "same_outside d (voxel x y z c d)"
  by (simp add: same_outside_def voxel_def cur_def)

lemma voxel_at_frame: "same_outside d (voxel_at x y z c d)"
  by (simp add: same_outside_def voxel_at_def cur_def)

lemma voxel_add_at_frame: "same_outside d (voxel_add_at x y z c d)"
  by (simp add: same_outside_def voxel_add_at_def cur_def)

lemma client_write_frame: "client_write lattice d d' \<Longrightarrow> same_outside d d'"
  by (induction rule: client_write.induct)
     (auto simp: voxel_frame voxel_v3_def voxel_add_def voxel_at_frame voxel_add_at_frame
           intro: radiate_sweep_frame split: prod.splits)

lemma client_writes_frame: "(client_write lattice)\<^sup>*\<^sup>* d d' \<Longrightarrow> same_outside d d'"
  by (induction rule: rtranclp_induct)
     (auto intro: same_outside_refl same_outside_trans client_write_frame)



lemma voxel_at_test: "((x :: i16) OR y OR z) AND 0xFFF0 = 0 \<longleftrightarrow> unat x < 16 \<and> unat y < 16 \<and> unat z < 16"
  by (subst or3_and_zero) (simp only: and_FFF0_zero)



section \<open>Counting neighbours\<close>

lemma and_bit_nonzero: "(cells :: u16) AND 2 ^ k \<noteq> 0 \<longleftrightarrow> bit cells k"
  by (simp add: and_exp_eq_0_iff_not_bit)

lemma below16_cases:
  "a < 16 \<Longrightarrow> a = 0 \<or> a = 1 \<or> a = 2 \<or> a = 3 \<or> a = 4 \<or> a = 5 \<or> a = 6 \<or> a = 7 \<or>
     a = 8 \<or> a = 9 \<or> a = 10 \<or> a = 11 \<or> a = 12 \<or> a = 13 \<or> a = 14 \<or> a = (15::nat)"
  by arith

lemma mask_m1: "a < 16 \<Longrightarrow> unat ((of_nat a - 1 :: i16) AND 0xF) = wrap16 a (-1)"
  by (drule below16_cases) (elim disjE; simp add: wrap16_def)

lemma mask_0: "a < 16 \<Longrightarrow> unat ((of_nat a :: i16) AND 0xF) = wrap16 a 0"
  by (drule below16_cases) (elim disjE; simp add: wrap16_def)

lemma mask_p1: "a < 16 \<Longrightarrow> unat ((of_nat a + 1 :: i16) AND 0xF) = wrap16 a 1"
  by (drule below16_cases) (elim disjE; simp add: wrap16_def)

lemma centre_neq: "a < 16 \<Longrightarrow> (of_nat a - 1 :: i16) \<noteq> of_nat a \<and> (of_nat a + 1 :: i16) \<noteq> of_nat a"
  by simp

lemma wrap16_distinct: "a < 16 \<Longrightarrow> distinct [wrap16 a (-1), wrap16 a 0, wrap16 a 1]"
  by (drule below16_cases) (elim disjE; simp add: wrap16_def)

lemma wrap16_lt: "wrap16 a d < 16"
  unfolding wrap16_def by simp

lemma wrap16_0: "a < 16 \<Longrightarrow> wrap16 a 0 = a"
  unfolding wrap16_def by simp

lemma count_cell_hit:
  "count_cell x0 y0 z0 x y (g1 (unat (x AND 0xF), unat (y AND 0xF))) z n =
     (if hit g1 x0 y0 z0 (x, y, z) then n + 1 else n)"
  by (simp add: count_cell_def hit_def Let_def and_bit_nonzero)

lemma fold_count_z:
  "fold (count_cell x0 y0 z0 x y (g1 (unat (x AND 0xF), unat (y AND 0xF)))) zs n =
   n + of_nat (length (filter (hit g1 x0 y0 z0) (map (Pair x \<circ> Pair y) zs)))"
  by (induction zs arbitrary: n) (simp_all add: count_cell_hit)

lemma fold_count_y:
  "fold (\<lambda>y. fold (count_cell x0 y0 z0 x y (g1 (unat (x AND 0xF), unat (y AND 0xF)))) zs) ys n =
   n + of_nat (length (filter (hit g1 x0 y0 z0) (map (Pair x) (List.product ys zs))))"
  by (induction ys arbitrary: n) (simp_all add: fold_count_z)

lemma fold_count_x:
  "fold (\<lambda>x. fold (\<lambda>y. fold (count_cell x0 y0 z0 x y (g1 (unat (x AND 0xF), unat (y AND 0xF)))) zs) ys) xs n =
   n + of_nat (length (filter (hit g1 x0 y0 z0) (List.product xs (List.product ys zs))))"
  by (induction xs arbitrary: n) (simp_all add: fold_count_y)

lemma count_neighbours_product:
  "count_neighbours g1 x0 y0 z0 =
     of_nat (length (filter (hit g1 x0 y0 z0)
        (List.product [x0 - 1, x0, x0 + 1] (List.product [y0 - 1, y0, y0 + 1] [z0 - 1, z0, z0 + 1]))))"
  unfolding count_neighbours_def Let_def fold_count_x by simp

lemma unat_of_nat_small: "n \<le> 27 \<Longrightarrow> unat (of_nat n :: u16) = n"
  by (simp add: unat_of_nat)

lemma length_block27:
  "length (List.product [x0 - 1, x0, x0 + 1] (List.product [y0 - 1, y0, y0 + 1] [z0 - 1, z0, z0 + (1 :: i16)])) = 27"
  by simp

lemma count_neighbours_unat:
  "unat (count_neighbours g1 x0 y0 z0) =
     length (filter (hit g1 x0 y0 z0)
        (List.product [x0 - 1, x0, x0 + 1] (List.product [y0 - 1, y0, y0 + 1] [z0 - 1, z0, z0 + 1])))"
proof -
  let ?l = "List.product [x0 - 1, x0, x0 + 1] (List.product [y0 - 1, y0, y0 + 1] [z0 - 1, z0, z0 + 1])"
  have "length (filter (hit g1 x0 y0 z0) ?l) \<le> length ?l" by (rule length_filter_le)
  also have "length ?l = 27" by (rule length_block27)
  finally have le: "length (filter (hit g1 x0 y0 z0) ?l) \<le> 27" .
  show ?thesis
    by (simp only: count_neighbours_product unat_of_nat_small [OF le])
qed

lemma hit_alive: "hit g1 x0 y0 z0 p = (p \<noteq> (x0, y0, z0) \<and> alive g1 (cell_of p))"
  by (cases p) (simp add: hit_def alive_def cell_of_def)

lemma length_filter_hit:
  "length (filter (hit g1 x0 y0 z0) l) =
   length (filter (alive g1) (map cell_of (filter (\<lambda>p. p \<noteq> (x0, y0, z0)) l)))"
  by (induction l) (simp_all add: hit_alive)

lemma neighbours26_explicit:
  "neighbours26 x y z =
     [(wrap16 x (-1), wrap16 y (-1), wrap16 z (-1)), (wrap16 x (-1), wrap16 y (-1), wrap16 z 0),
      (wrap16 x (-1), wrap16 y (-1), wrap16 z 1),
      (wrap16 x (-1), wrap16 y 0, wrap16 z (-1)), (wrap16 x (-1), wrap16 y 0, wrap16 z 0),
      (wrap16 x (-1), wrap16 y 0, wrap16 z 1),
      (wrap16 x (-1), wrap16 y 1, wrap16 z (-1)), (wrap16 x (-1), wrap16 y 1, wrap16 z 0),
      (wrap16 x (-1), wrap16 y 1, wrap16 z 1),
      (wrap16 x 0, wrap16 y (-1), wrap16 z (-1)), (wrap16 x 0, wrap16 y (-1), wrap16 z 0),
      (wrap16 x 0, wrap16 y (-1), wrap16 z 1),
      (wrap16 x 0, wrap16 y 0, wrap16 z (-1)),
      (wrap16 x 0, wrap16 y 0, wrap16 z 1),
      (wrap16 x 0, wrap16 y 1, wrap16 z (-1)), (wrap16 x 0, wrap16 y 1, wrap16 z 0),
      (wrap16 x 0, wrap16 y 1, wrap16 z 1),
      (wrap16 x 1, wrap16 y (-1), wrap16 z (-1)), (wrap16 x 1, wrap16 y (-1), wrap16 z 0),
      (wrap16 x 1, wrap16 y (-1), wrap16 z 1),
      (wrap16 x 1, wrap16 y 0, wrap16 z (-1)), (wrap16 x 1, wrap16 y 0, wrap16 z 0),
      (wrap16 x 1, wrap16 y 0, wrap16 z 1),
      (wrap16 x 1, wrap16 y 1, wrap16 z (-1)), (wrap16 x 1, wrap16 y 1, wrap16 z 0),
      (wrap16 x 1, wrap16 y 1, wrap16 z 1)]"
  by (simp add: neighbours26_def offsets26_def)

lemma block_cells:
  assumes "x < 16" "y < 16" "z < 16"
  shows "map cell_of (filter (\<lambda>p. p \<noteq> (of_nat x, of_nat y, of_nat z))
           (List.product [of_nat x - 1, of_nat x, of_nat x + 1]
              (List.product [of_nat y - 1, of_nat y, of_nat y + 1] [of_nat z - 1, of_nat z, of_nat z + 1])))
         = neighbours26 x y z"
  by (simp add: neighbours26_explicit cell_of_def mask_m1 [OF assms(1)] mask_0 [OF assms(1)] mask_p1 [OF assms(1)]
       mask_m1 [OF assms(2)] mask_0 [OF assms(2)] mask_p1 [OF assms(2)]
       mask_m1 [OF assms(3)] mask_0 [OF assms(3)] mask_p1 [OF assms(3)])

lemma offsets26_set: "set offsets26 = {-1, 0, 1} \<times> {-1, 0, 1} \<times> {-1, 0, 1} - {(0, 0, 0)}"
proof -
  have "set offsets26 = {p \<in> set [-1, 0, 1] \<times> set [-1, 0, 1] \<times> set [-1, 0, 1]. p \<noteq> (0, 0, 0)}"
    unfolding offsets26_def by (simp only: set_filter set_product)
  also have "\<dots> = set [-1, 0, 1] \<times> set [-1, 0, 1] \<times> set [-1, 0, 1] - {(0, 0, 0)}"
    by blast
  finally show ?thesis by (simp only: list.set)
qed

lemma offsets26_distinct: "distinct offsets26"
  unfolding offsets26_def by (intro distinct_filter distinct_product) simp_all

lemma wrap16_inj: "a < 16 \<Longrightarrow> inj_on (wrap16 a) {-1, 0, 1}"
  using wrap16_distinct [of a] by (auto simp: inj_on_def)

lemma wrap3_inj:
  assumes "inj_on (wrap16 x) {-1, 0, 1}"  "inj_on (wrap16 y) {-1, 0, 1}" "inj_on (wrap16 z) {-1, 0, 1}"
  shows "inj_on (\<lambda>(dx, dy, dz). (wrap16 x dx, wrap16 y dy, wrap16 z dz)) ({-1, 0, 1} \<times> {-1, 0, 1} \<times> {-1, 0, 1})"
  using assms
  unfolding inj_on_def by clarify blast

lemma neighbours26_distinct:
  assumes "x < 16" "y < 16" "z < 16"
  shows "distinct (neighbours26 x y z) \<and> (x, y, z) \<notin> set (neighbours26 x y z)"
proof -
  let ?f = "\<lambda>(dx, dy, dz). (wrap16 x dx, wrap16 y dy, wrap16 z dz)"
  let ?C = "{-1, 0, 1} \<times> {-1, 0, 1} \<times> {-1, 0, 1} :: (int \<times> int \<times> int) set"
  have sub: "set offsets26 \<subseteq> ?C" unfolding offsets26_set by (rule Diff_subset)
  have inj: "inj_on ?f ?C"
    by (rule wrap3_inj [OF wrap16_inj [OF assms(1)] wrap16_inj [OF assms(2)] wrap16_inj [OF assms(3)]])
  have "inj_on ?f (set offsets26)" by (rule inj_on_subset [OF inj sub])
  then have d: "distinct (neighbours26 x y z)"
    unfolding neighbours26_def by (simp only: distinct_map offsets26_distinct simp_thms)
  have c: "?f (0, 0, 0) = (x, y, z)" by (simp add: wrap16_0 assms)
  have "(x, y, z) \<notin> set (neighbours26 x y z)"
  proof
    assume "(x, y, z) \<in> set (neighbours26 x y z)"
    then have "(x, y, z) \<in> ?f ` set offsets26"
      unfolding neighbours26_def by (simp only: set_map)
    then obtain p where p: "p \<in> set offsets26" and e: "(x, y, z) = ?f p"
      by (rule imageE)
    from p sub have pc: "p \<in> ?C" by (rule subsetD [rotated])
    have zc: "(0, 0, 0) \<in> ?C" by simp
    from e c have "?f p = ?f (0, 0, 0)" by (simp only:)
    from inj_onD [OF inj this pc zc] have "p = (0, 0, 0)" .
    with p show False unfolding offsets26_set by (simp only: Diff_iff singletonI simp_thms)
  qed
  with d show ?thesis by (rule conjI)
qed

lemma neighbours26_set:
  "set (neighbours26 x y z) =
     (\<lambda>(dx, dy, dz). (nat ((int x + dx) mod 16), nat ((int y + dy) mod 16), nat ((int z + dz) mod 16))) `
       ({-1, 0, 1} \<times> {-1, 0, 1} \<times> {-1, 0, 1} - {(0, 0, 0)})"
  unfolding neighbours26_def by (simp only: set_map offsets26_set wrap16_def)

lemma neighbours26_in_range: "p \<in> set (neighbours26 x y z) \<Longrightarrow> fst p < 16 \<and> fst (snd p) < 16 \<and> snd (snd p) < 16"
  by (auto simp: neighbours26_def wrap16_lt)

lemma neighbours26_length: "length (neighbours26 x y z) = 26"
  by (simp add: neighbours26_explicit)

lemma count_neighbours_spec:
  assumes "x < 16" "y < 16" "z < 16"
  shows "unat (count_neighbours g1 (of_nat x) (of_nat y) (of_nat z)) = length (filter (alive g1) (neighbours26 x y z))"
  by (simp only: count_neighbours_unat length_filter_hit block_cells [OF assms])

lemma count_neighbours_le_26:
  assumes "x < 16" "y < 16" "z < 16"
  shows "unat (count_neighbours g1 (of_nat x) (of_nat y) (of_nat z)) \<le> 26"
proof -
  have "length (filter (alive g1) (neighbours26 x y z)) \<le> length (neighbours26 x y z)"
    by (rule length_filter_le)
  then show ?thesis by (simp only: count_neighbours_spec [OF assms] neighbours26_length)
qed

section \<open>A generation step and the progress of the game\<close>

lemma bit_clear: "bit ((c :: u16) AND NOT (2 ^ n)) k \<longleftrightarrow> bit c k \<and> k \<noteq> n"
  by (auto simp: bit_and_iff bit_not_iff bit_exp_iff dest: bit_imp_le_length)

lemma bit_set: "n < 16 \<Longrightarrow> bit ((c :: u16) OR 2 ^ n) k \<longleftrightarrow> bit c k \<or> k = n"
  by (auto simp: bit_or_iff bit_exp_iff)

lemma test_bit: "(c :: u16) AND 2 ^ n = 0 \<longleftrightarrow> \<not> bit c n"
  by (simp add: and_exp_eq_0_iff_not_bit)

lemma gen_cell_step:
  assumes "n < 16"
  shows "gen_cell g1 rl x y n (c, nl, h) =
    (fst (gen_cell g1 rl x y n (c, nl, h)),
     nl + (if rule_bit (rl (unat (count_neighbours g1 (of_nat x) (of_nat y) (of_nat n)))) (bit c n) then 1 else 0),
     snd (snd (gen_cell g1 rl x y n (c, nl, h))))
   \<and> (\<forall>k. bit (fst (gen_cell g1 rl x y n (c, nl, h))) k =
          (if k = n then rule_bit (rl (unat (count_neighbours g1 (of_nat x) (of_nat y) (of_nat n)))) (bit c n)
           else bit c k))"
  by (cases "rl (unat (count_neighbours g1 (of_nat x) (of_nat y) (of_nat n)))")
     (simp_all add: gen_cell_def Let_def test_bit bit_clear bit_set assms rule_bit_def)

lemma next_alive_rule:
  "next_alive g1 rl (x, y, z) =
     rule_bit (rl (unat (count_neighbours g1 (of_nat x) (of_nat y) (of_nat z)))) (bit (g1 (x, y)) z)"
  by (simp add: next_alive_def rule_bit_def)

lemma gen_cell_fold:
  "n \<le> 16 \<Longrightarrow>
   (\<forall>k. bit (fst (fold (gen_cell g1 rl x y) [0..<n] (g1 (x, y), nl, h))) k =
         (if k < n then next_alive g1 rl (x, y, k) else bit (g1 (x, y)) k)) \<and>
   fst (snd (fold (gen_cell g1 rl x y) [0..<n] (g1 (x, y), nl, h))) =
     nl + of_nat (length (filter (\<lambda>z. next_alive g1 rl (x, y, z)) [0..<n]))"
proof (induction n)
  case 0
  show ?case by simp
next
  case (Suc n)
  then have n: "n < 16" by simp
  obtain c nl1 h1 where f: "fold (gen_cell g1 rl x y) [0..<n] (g1 (x, y), nl, h) = (c, nl1, h1)"
    by (cases "fold (gen_cell g1 rl x y) [0..<n] (g1 (x, y), nl, h)") auto
  from Suc f have c: "\<And>k. bit c k = (if k < n then next_alive g1 rl (x, y, k) else bit (g1 (x, y)) k)"
    and nl1: "nl1 = nl + of_nat (length (filter (\<lambda>z. next_alive g1 rl (x, y, z)) [0..<n]))"
    by simp_all
  have cn: "bit c n = bit (g1 (x, y)) n" by (simp add: c)
  note st = gen_cell_step [OF n, of g1 rl x y c nl1 h1, unfolded cn, folded next_alive_rule]
  have fs: "fold (gen_cell g1 rl x y) [0..<Suc n] (g1 (x, y), nl, h) = gen_cell g1 rl x y n (c, nl1, h1)"
    by (simp add: f)
  have b: "\<forall>k. bit (fst (gen_cell g1 rl x y n (c, nl1, h1))) k =
         (if k < Suc n then next_alive g1 rl (x, y, k) else bit (g1 (x, y)) k)"
    using st [THEN conjunct2] by (auto simp: c less_Suc_eq)
  have "fst (snd (gen_cell g1 rl x y n (c, nl1, h1))) =
      nl1 + (if next_alive g1 rl (x, y, n) then 1 else 0)"
    by (subst st [THEN conjunct1]) simp
  then have l: "fst (snd (gen_cell g1 rl x y n (c, nl1, h1))) =
     nl + of_nat (length (filter (\<lambda>z. next_alive g1 rl (x, y, z)) [0..<Suc n]))"
    by (simp add: nl1)
  from b l show ?case by (simp only: fs simp_thms)
qed

lemma bit_column:
  "bit (fst (fold (gen_cell g1 rl x y) [0..<16] (g1 (x, y), nl, h))) k \<longleftrightarrow> k < 16 \<and> next_alive g1 rl (x, y, k)"
  using gen_cell_fold [of 16 g1 rl x y nl h, THEN conjunct1, rule_format, of k]
  by (auto dest: bit_imp_le_length)

lemma bit_next_column: "bit (next_column g1 rl x y) k \<longleftrightarrow> k < 16 \<and> next_alive g1 rl (x, y, k)"
  unfolding next_column_def by (rule bit_column)

lemma column_cells: "fst (fold (gen_cell g1 rl x y) [0..<16] (g1 (x, y), nl, h)) = next_column g1 rl x y"
  by (rule bit_eqI) (simp only: bit_column bit_next_column)

lemma column_count:
  "fst (snd (fold (gen_cell g1 rl x y) [0..<16] (g1 (x, y), nl, h))) =
     nl + of_nat (length (filter (\<lambda>z. next_alive g1 rl (x, y, z)) [0..<16]))"
  using gen_cell_fold [of 16 g1 rl x y nl h] by simp

lemma gen_column_fst: "fst (gen_column g1 rl x y (g2, nl, h)) = g2((x, y) := next_column g1 rl x y)"
  unfolding gen_column_def using column_cells [of g1 rl x y nl h]
  by (simp add: split_beta)

lemma gen_column_count:
  "fst (snd (gen_column g1 rl x y (g2, nl, h))) =
     nl + of_nat (length (filter (next_alive g1 rl) (map (Pair x \<circ> Pair y) [0..<16])))"
  unfolding gen_column_def using column_count [of g1 rl x y nl h]
  by (simp add: split_beta filter_map comp_def)

lemma gen_column_fold:
  "fst (fold (gen_column g1 rl x) ys acc) =
      (\<lambda>p. if fst p = x \<and> snd p \<in> set ys then next_column g1 rl x (snd p) else fst acc p) \<and>
   fst (snd (fold (gen_column g1 rl x) ys acc)) =
      fst (snd acc) + of_nat (length (filter (next_alive g1 rl) (map (Pair x) (List.product ys [0..<16]))))"
proof (induction ys arbitrary: acc)
  case Nil
  show ?case by simp
next
  case (Cons y ys)
  obtain g2 nl h where acc: "acc = (g2, nl, h)" by (cases acc) auto
  have a: "fst (gen_column g1 rl x y acc) = g2((x, y) := next_column g1 rl x y)"
    unfolding acc by (rule gen_column_fst)
  have b: "fst (snd (gen_column g1 rl x y acc)) =
     nl + of_nat (length (filter (next_alive g1 rl) (map (Pair x \<circ> Pair y) [0..<16])))"
    unfolding acc by (rule gen_column_count)
  have m: "map (Pair x) (List.product (y # ys) [0..<16]) =
      map (Pair x \<circ> Pair y) [0..<16] @ map (Pair x) (List.product ys [0..<16])"
    by simp
  show ?case
    apply (simp only: fold_simps Cons.IH [of "gen_column g1 rl x y acc"] a b m filter_append length_append of_nat_add)
    apply (auto simp: acc fun_eq_iff)
    done
qed

lemma gen_plane_fold:
  "fst (fold (\<lambda>x. fold (gen_column g1 rl x) ys) xs acc) =
      (\<lambda>p. if fst p \<in> set xs \<and> snd p \<in> set ys then next_column g1 rl (fst p) (snd p) else fst acc p) \<and>
   fst (snd (fold (\<lambda>x. fold (gen_column g1 rl x) ys) xs acc)) =
      fst (snd acc) + of_nat (length (filter (next_alive g1 rl) (List.product xs (List.product ys [0..<16]))))"
proof (induction xs arbitrary: acc)
  case Nil
  show ?case by simp
next
  case (Cons x xs)
  note col = gen_column_fold [of g1 rl x ys acc]
  show ?case
    apply (simp only: fold_simps Cons.IH [of "fold (gen_column g1 rl x) ys acc"] col [THEN conjunct1] col [THEN conjunct2]
        product.simps filter_append length_append of_nat_add)
    apply (auto simp: fun_eq_iff)
    done
qed

lemma game_next_generation_eq:
  "snd (game_next_generation st) =
     st\<lparr>cells_g1 := cells_g2 st,
        cells_g2 := (\<lambda>p. if fst p < 16 \<and> snd p < 16 then next_column (cells_g2 st) (rules st) (fst p) (snd p)
                         else cells_g2 st p),
        living := of_nat (length (filter (next_alive (cells_g2 st) (rules st)) all_cells))\<rparr>"
proof -
  let ?R = "fold (\<lambda>x. fold (gen_column (cells_g2 st) (rules st) x) [0..<16]) [0..<16] (cells_g2 st, 0, 0)"
  note p = gen_plane_fold [of "cells_g2 st" "rules st" "[0..<16]" "[0..<16]" "(cells_g2 st, 0, 0)"]
  have a: "fst ?R = (\<lambda>p. if fst p < 16 \<and> snd p < 16 then next_column (cells_g2 st) (rules st) (fst p) (snd p)
                         else cells_g2 st p)"
    using p [THEN conjunct1] by (simp cong: if_cong)
  have b: "fst (snd ?R) = of_nat (length (filter (next_alive (cells_g2 st) (rules st)) all_cells))"
    using p [THEN conjunct2] by (simp add: all_cells_def)
  have "snd (game_next_generation st) = st\<lparr>cells_g1 := cells_g2 st, cells_g2 := fst ?R, living := fst (snd ?R)\<rparr>"
    unfolding game_next_generation_def Let_def by (simp add: split_beta)
  then show ?thesis by (simp only: a b)
qed

lemma all_cells_length: "length all_cells = 4096"
  by (simp add: all_cells_def)

lemma all_cells_set: "set all_cells = {..<16} \<times> {..<16} \<times> {..<16}"
  by (auto simp: all_cells_def)

lemma unat_living:
  "unat (of_nat (length (filter P all_cells)) :: u16) = length (filter P all_cells)"
proof -
  have "length (filter P all_cells) \<le> length all_cells" by (rule length_filter_le)
  then have "length (filter P all_cells) < 65536" by (simp only: all_cells_length)
  then show ?thesis by (simp add: unat_of_nat)
qed

lemma all_die_next: 
  assumes die: "\<forall>i<27. rl i = DIE" and p: "p \<in> set all_cells"
  shows "\<not> next_alive g1 rl p"
proof -
  obtain x y z where xyz: "p = (x, y, z)" by (cases p) auto
  with p have b: "x < 16" "y < 16" "z < 16" by (auto simp: all_cells_set)
  from count_neighbours_le_26 [OF b, of g1] have "unat (count_neighbours g1 (of_nat x) (of_nat y) (of_nat z)) < 27"
    by simp
  with die have "rl (unat (count_neighbours g1 (of_nat x) (of_nat y) (of_nat z))) = DIE" by blast
  then show ?thesis by (simp add: xyz next_alive_def)
qed

lemma all_die_living:
  assumes "\<forall>i<27. rules st i = DIE"
  shows "living (snd (game_next_generation st)) = 0"
proof -
  have "filter (next_alive (cells_g2 st) (rules st)) all_cells = []"
    unfolding filter_empty_conv using all_die_next [OF assms] by blast
  then show ?thesis by (simp add: game_next_generation_eq)
qed

lemma all_die_cells:
  assumes "\<forall>i<27. rules st i = DIE" and "x < 16" "y < 16"
  shows "cells_g2 (snd (game_next_generation st)) (x, y) = 0"
proof -
  have "next_column (cells_g2 st) (rules st) x y = 0"
  proof (rule bit_eqI)
    fix k
    have "k < 16 \<Longrightarrow> (x, y, k) \<in> set all_cells" using assms(2,3) by (simp add: all_cells_set)
    then show "bit (next_column (cells_g2 st) (rules st) x y) k = bit (0 :: u16) k"
      using all_die_next [OF assms(1), of "(x, y, k)" "cells_g2 st"] by (auto simp: bit_next_column)
  qed
  then show ?thesis using assms(2,3) by (simp add: game_next_generation_eq)
qed

lemma alive_living:
  assumes "p \<in> set all_cells" and "next_alive (cells_g2 st) (rules st) p"
  shows "living (snd (game_next_generation st)) \<noteq> 0"
proof -
  let ?n = "length (filter (next_alive (cells_g2 st) (rules st)) all_cells)"
  from assms have "p \<in> set (filter (next_alive (cells_g2 st) (rules st)) all_cells)" by simp
  then have "0 < ?n" by (rule length_pos_if_in_set)
  then have "unat (of_nat ?n :: u16) \<noteq> 0" by (simp only: unat_living)
  then have "(of_nat ?n :: u16) \<noteq> 0" by (metis unat_0)
  then show ?thesis by (simp only: game_next_generation_eq) simp
qed

lemma game_next_generation_other:
  "cells_g1 (snd (game_next_generation st)) = cells_g2 st"
  "rules (snd (game_next_generation st)) = rules st"
  "hash_list (snd (game_next_generation st)) = hash_list st"
  "hash_nr (snd (game_next_generation st)) = hash_nr st"
  "sequence (snd (game_next_generation st)) = sequence st"
  by (simp_all add: game_next_generation_eq)

lemma unat_u8_le: "unat (i :: u8) \<le> 255"
  using unsigned_less [of i, where 'a = nat] by simp

lemma unat_ucast_u8: "unat (ucast (i :: u8) :: u32) = unat i"
proof -
  have "unat i < 2 ^ 32" using unat_u8_le [of i] by simp
  then show ?thesis by (simp add: unsigned_ucast_eq take_bit_nat_eq_self)
qed

lemma scan_returns:
  assumes "scan_hashes hl hnr hash i m = Some y"
  shows "unat hnr < 256"
proof (rule scan_hashes.raw_induct [where P = "\<lambda>hl hnr hash i m y. unat hnr < 256", OF _ assms])
  fix scan :: "(nat \<Rightarrow> u32) \<Rightarrow> u32 \<Rightarrow> u32 \<Rightarrow> u8 \<Rightarrow> u8 \<Rightarrow> u8 option"
  fix hl hnr hash i m y
  assume IH: "\<And>hl hnr hash i m y. scan hl hnr hash i m = Some y \<Longrightarrow> unat hnr < 256"
    and eq: "(if (ucast i :: u32) < hnr \<and> unat i \<le> 255
              then scan hl hnr hash (i + 1) (if hl (unat i) = hash then m + 1 else m)
              else Some m) = Some y"
  show "unat hnr < 256"
  proof (cases "(ucast i :: u32) < hnr \<and> unat i \<le> 255")
    case True
    with eq IH show ?thesis by simp
  next
    case False
    have i: "unat i \<le> 255" by (rule unat_u8_le)
    with False have "hnr \<le> ucast i" by simp
    then have "unat hnr \<le> unat (ucast i :: u32)" by (simp add: word_le_nat_alt)
    also have "\<dots> = unat i" by (rule unat_ucast_u8)
    finally show ?thesis using i by simp
  qed
qed

lemma scan_diverges: "256 \<le> unat hnr \<Longrightarrow> scan_hashes hl hnr hash i m = None"
  using scan_returns [of hl hnr hash i m] by (cases "scan_hashes hl hnr hash i m") auto

lemma scan_stop: "\<not> (ucast i :: u32) < hnr \<Longrightarrow> scan_hashes hl hnr hash i m = Some m"
  by (subst scan_hashes.simps) simp

lemma scan_step:
  "(ucast i :: u32) < hnr \<Longrightarrow>
   scan_hashes hl hnr hash i m =
     scan_hashes hl hnr hash (i + 1) (if hl (unat i) = hash then m + 1 else m)"
  by (subst scan_hashes.simps) (simp add: unat_u8_le)

lemma scan_count:
  assumes "unat hnr \<le> 255"
  shows "i \<le> unat hnr \<Longrightarrow>
     scan_hashes hl hnr hash (of_nat i) m =
       Some (m + of_nat (length (filter (\<lambda>j. hl j = hash) [i..<unat hnr])))"
proof (induction "unat hnr - i" arbitrary: i m)
  case 0
  then have e: "i = unat hnr" by simp
  with assms have "i \<le> 255" by simp
  then have ui: "unat (of_nat i :: u8) = i" by (simp add: unat_of_nat)
  have "unat (ucast (of_nat i :: u8) :: u32) = i" by (simp only: unat_ucast_u8 ui)
  then have "\<not> unat (ucast (of_nat i :: u8) :: u32) < unat hnr" using e by linarith
  then have n: "\<not> (ucast (of_nat i :: u8) :: u32) < hnr" by (simp only: word_less_nat_alt simp_thms)
  have "[i..<unat hnr] = []" using e by simp
  then show ?case by (simp only: scan_stop [OF n]) simp
next
  case (Suc k)
  then have lt: "i < unat hnr" by simp
  with assms have i255: "i \<le> 255" by simp
  then have ui: "unat (of_nat i :: u8) = i" by (simp add: unat_of_nat)
  have "unat (ucast (of_nat i :: u8) :: u32) = i" by (simp only: unat_ucast_u8 ui)
  then have "unat (ucast (of_nat i :: u8) :: u32) < unat hnr" using lt by linarith
  then have c: "(ucast (of_nat i :: u8) :: u32) < hnr" by (simp only: word_less_nat_alt)
  have k: "k = unat hnr - Suc i" using Suc(2) by simp
  have nx: "(of_nat i + 1 :: u8) = of_nat (Suc i)" by simp
  have l: "[i..<unat hnr] = i # [Suc i..<unat hnr]" using lt by (simp add: upt_conv_Cons)
  from lt have le: "Suc i \<le> unat hnr" by simp
  show ?case
    by (simp only: scan_step [OF c] ui nx Suc(1) [OF k le] l) simp
qed

lemma scan_terminates:
  assumes "unat hnr \<le> 255"
  shows "scan_hashes hl hnr hash 0 0 = Some (of_nat (length (filter (\<lambda>j. hl j = hash) [0..<unat hnr])))"
  using scan_count [OF assms, of 0 hl hash 0] by simp

lemma lt16_unat: "(c :: u16) < 16 \<longleftrightarrow> unat c < 16"
  by (simp add: word_less_nat_alt)

lemma place_bit:
  "bit (place p cells (x, y)) z \<longleftrightarrow> bit (cells (x, y)) z \<or> placed p (x, y, z)"
  by (cases p) (auto simp: place_def placed_def bit_set lt16_unat)

lemma place_fold:
  "bit (fold (\<lambda>i. place (sample i)) [0..<n] init (x, y)) z \<longleftrightarrow>
     bit (init (x, y)) z \<or> (\<exists>i<n. placed (sample i) (x, y, z))"
  by (induction n) (auto simp: place_bit less_Suc_eq)

lemma game_randomize_cells:
  assumes "x < 16" "y < 16"
  shows "bit (cells_g2 (game_randomize amount sample st) (x, y)) z \<longleftrightarrow>
     (\<exists>i < unat amount. placed (sample i) (x, y, z))"
  using assms by (simp add: game_randomize_def place_fold)

lemma game_randomize_other:
  "living (game_randomize amount sample st) = amount"
  "cells_g1 (game_randomize amount sample st) = cells_g1 st"
  "rules (game_randomize amount sample st) = rules st"
  "hash_nr (game_randomize amount sample st) = hash_nr st"
  "hash_list (game_randomize amount sample st) = hash_list st"
  "sequence (game_randomize amount sample st) = sequence st"
  by (simp_all add: game_randomize_def)

lemma game_reset_fields:
  "living (game_reset st) = 0"
  "hash_nr (game_reset st) = 0"
  "sequence (game_reset st) = sequence st"
  "hash_list (game_reset st) = hash_list st"
  "i < 27 \<Longrightarrow> rules (game_reset st) i = DIE"
  "x < 16 \<Longrightarrow> y < 16 \<Longrightarrow> cells_g1 (game_reset st) (x, y) = 0"
  "x < 16 \<Longrightarrow> y < 16 \<Longrightarrow> cells_g2 (game_reset st) (x, y) = 0"
  by (simp_all add: game_reset_def game_rule_reset_def)

lemma unat_of_nat_u16: "n < 65536 \<Longrightarrow> unat (of_nat n :: u16) = n"
  by (simp add: unat_of_nat)

lemma preset_amount_pos: "0 < unat (preset_amount seq rnd) \<and> unat (preset_amount seq rnd) < 400"
proof -
  have "200 + rnd mod 200 < 65536" by simp
  then have "unat (of_nat (200 + rnd mod 200) :: u16) = 200 + rnd mod 200"
    by (rule unat_of_nat_u16)
  then show ?thesis unfolding preset_amount_def by (simp del: of_nat_add of_nat_numeral)
qed

lemma reseed_fields:
  "sequence (reseed rnd sample st) = next_sequence (sequence st)"
  "living (reseed rnd sample st) = preset_amount (sequence st) rnd"
  "hash_nr (reseed rnd sample st) = hash_nr st"
  "hash_list (reseed rnd sample st) = hash_list st"
  "cells_g1 (reseed rnd sample st) = cells_g1 st"
  by (simp_all add: reseed_def Let_def game_randomize_other next_sequence_def preset_amount_def)

lemma reseed_rules:
  assumes "\<forall>i<27. rules st i = DIE" and "i < 27"
  shows "rules (reseed rnd sample st) i = preset_rules (sequence st) i"
  using assms by (simp add: reseed_def Let_def game_randomize_other preset_rules_def)

lemma reseed_cells:
  assumes "x < 16" "y < 16"
  shows "bit (cells_g2 (reseed rnd sample st) (x, y)) z \<longleftrightarrow>
     (\<exists>i < unat (preset_amount (sequence st) rnd). placed (sample i) (x, y, z))"
  using assms by (simp add: reseed_def Let_def game_randomize_cells preset_amount_def)

lemma game_progress_extinct_eq:
  "living (snd (game_next_generation st)) = 0 \<Longrightarrow>
   game_progress rnd sample st = Some (reseed rnd sample (game_reset (snd (game_next_generation st))))"
  by (simp add: game_progress_def split_beta)

lemma game_progress_alive_eq:
  "living (snd (game_next_generation st)) \<noteq> 0 \<Longrightarrow>
   game_progress rnd sample st =
     (case scan_hashes (hash_list st) (hash_nr st) (fst (game_next_generation st)) 0 0 of
        None \<Rightarrow> None
      | Some matches \<Rightarrow>
          if 6 \<le> matches \<or> 500 \<le> living (snd (game_next_generation st))
          then Some (snd (game_next_generation (game_rule_reset (snd (game_next_generation st)))))
          else Some ((snd (game_next_generation st))
                 \<lparr>hash_list := (hash_list st)(unat (hash_nr st AND 0xFF) := fst (game_next_generation st)),
                  hash_nr := hash_nr st + 1\<rparr>))"
  by (simp add: game_progress_def split_beta game_next_generation_other split: option.splits)

lemma block_count: "unat (count_neighbours block_grid 7 7 7) = 7"
proof -
  have lt: "(7 :: nat) < 16" by simp
  have n: "(of_nat 7 :: i16) = 7" by simp
  have "length (filter (alive block_grid) (neighbours26 7 7 7)) = 7"
    by (simp add: neighbours26_explicit wrap16_def alive_def block_grid_def bit_numeral_simps)
  with count_neighbours_spec [OF lt lt lt, of block_grid] show ?thesis by (simp only: n)
qed

lemma block_alive: "living (snd (game_next_generation (block_state n))) \<noteq> 0"
proof (rule alive_living [of "(7, 7, 7)"])
  show "(7, 7, 7) \<in> set all_cells" by (simp add: all_cells_set)
  show "next_alive (cells_g2 (block_state n)) (rules (block_state n)) (7, 7, 7)"
    by (simp add: next_alive_def block_state_def block_count) (simp add: block_grid_def)
qed

lemma matches_u8:
  assumes "n \<le> 255"
  shows "(6 \<le> (of_nat n :: u8)) = (6 \<le> n)"
proof -
  have "unat (of_nat n :: u8) = n" using assms by (simp add: unat_of_nat)
  then show ?thesis by (simp add: word_le_nat_alt)
qed

lemma living_500: "(500 \<le> (w :: u16)) = (500 \<le> unat w)"
  by (simp add: word_le_nat_alt)

lemma and_FF_small:
  assumes "unat (w :: u32) < 256"
  shows "unat (w AND 0xFF) = unat w"
proof -
  have m: "(0xFF :: u32) = mask 8" by (simp add: mask_eq_exp_minus_1)
  have "w < 2 ^ 8" using assms by (simp add: word_less_nat_alt)
  then have "w AND mask 8 = w" by (rule less_mask_eq)
  then show ?thesis by (simp only: m)
qed

lemma game_progress_scan:
  assumes small: "unat (hash_nr st) < 256" and alive: "living (snd (game_next_generation st)) \<noteq> 0"
  shows "game_progress rnd sample st =
     Some (if 6 \<le> length (filter (\<lambda>j. hash_list st j = fst (game_next_generation st)) [0..<unat (hash_nr st)])
              \<or> 500 \<le> unat (living (snd (game_next_generation st)))
           then snd (game_next_generation (game_rule_reset (snd (game_next_generation st))))
           else (snd (game_next_generation st))
                  \<lparr>hash_list := (hash_list st)(unat (hash_nr st) := fst (game_next_generation st)),
                   hash_nr := hash_nr st + 1\<rparr>)"
proof -
  let ?n = "length (filter (\<lambda>j. hash_list st j = fst (game_next_generation st)) [0..<unat (hash_nr st)])"
  from small have le: "unat (hash_nr st) \<le> 255" by simp
  have "?n \<le> length [0..<unat (hash_nr st)]" by (rule length_filter_le)
  with le have n: "?n \<le> 255" by simp
  have scan: "scan_hashes (hash_list st) (hash_nr st) (fst (game_next_generation st)) 0 0 = Some (of_nat ?n)"
    by (rule scan_terminates [OF le])
  show ?thesis
    by (simp only: game_progress_alive_eq [OF alive] scan option.case matches_u8 [OF n] living_500
          and_FF_small [OF small]) simp
qed

lemma rule_reset_generation:
  "(\<forall>i<27. rules (snd (game_next_generation (game_rule_reset st))) i = DIE)
   \<and> living (snd (game_next_generation (game_rule_reset st))) = 0
   \<and> (\<forall>x<16. \<forall>y<16. cells_g2 (snd (game_next_generation (game_rule_reset st))) (x, y) = 0)
   \<and> cells_g1 (snd (game_next_generation (game_rule_reset st))) = cells_g2 st
   \<and> hash_nr (snd (game_next_generation (game_rule_reset st))) = hash_nr st
   \<and> hash_list (snd (game_next_generation (game_rule_reset st))) = hash_list st
   \<and> sequence (snd (game_next_generation (game_rule_reset st))) = sequence st"
proof -
  have die: "\<forall>i<27. rules (game_rule_reset st) i = DIE" by (simp add: game_rule_reset_def)
  have f: "cells_g2 (game_rule_reset st) = cells_g2 st" "hash_nr (game_rule_reset st) = hash_nr st"
    "hash_list (game_rule_reset st) = hash_list st" "sequence (game_rule_reset st) = sequence st"
    by (simp_all add: game_rule_reset_def)
  from die all_die_living [OF die] all_die_cells [OF die] show ?thesis
    by (simp add: game_next_generation_other f)
qed

lemma all_cells_distinct: "distinct all_cells"
  unfolding all_cells_def by (intro distinct_product) simp_all

lemma block_alive_cell: "alive block_grid (x, y, z) \<Longrightarrow> x \<in> {7, 8} \<and> y \<in> {7, 8} \<and> z \<in> {7, 8}"
proof -
  assume a: "alive block_grid (x, y, z)"
  have w: "(0x180 :: u16) = 2 ^ 7 OR 2 ^ 8" by simp
  have "bit (0x180 :: u16) z \<Longrightarrow> z = 7 \<or> z = 8"
    by (simp only: w bit_or_iff bit_exp_iff) blast
  with a show ?thesis by (auto simp: alive_def block_grid_def split: if_splits)
qed

lemma wrap16_near:
  assumes "a < 16" "d \<in> {-1, 0, 1}" "wrap16 a d \<in> {7, 8}"
  shows "a \<in> {6..9}"
  using assms unfolding wrap16_def by (drule_tac below16_cases) (elim disjE; auto)

lemma block_next_region:
  assumes p: "p \<in> set all_cells" and n: "next_alive block_grid (rules (block_state k)) p"
  shows "p \<in> {6..9} \<times> {6..9} \<times> {6..9}"
proof -
  obtain x y z where xyz: "p = (x, y, z)" by (cases p) auto
  with p have lt: "x < 16" "y < 16" "z < 16" by (auto simp: all_cells_set)
  let ?c = "unat (count_neighbours block_grid (of_nat x) (of_nat y) (of_nat z))"
  from n have "rules (block_state k) ?c \<noteq> DIE"
    by (auto simp: xyz next_alive_def split: rule_t.splits)
  then have "?c \<noteq> 0" by (auto simp: block_state_def split: if_splits)
  then have "filter (alive block_grid) (neighbours26 x y z) \<noteq> []"
    by (simp only: count_neighbours_spec [OF lt]) simp
  then obtain q where q: "q \<in> set (neighbours26 x y z)" and a: "alive block_grid q"
    by (auto simp: filter_empty_conv)
  from q obtain o3 where o3: "o3 \<in> set offsets26"
    and qo: "q = (case o3 of (dx, dy, dz) \<Rightarrow> (wrap16 x dx, wrap16 y dy, wrap16 z dz))"
    unfolding neighbours26_def by auto
  obtain dx dy dz where o3e: "o3 = (dx, dy, dz)" by (cases o3) auto
  from o3 have d: "dx \<in> {-1, 0, 1}" "dy \<in> {-1, 0, 1}" "dz \<in> {-1, 0, 1}"
    unfolding offsets26_set o3e by blast+
  from qo have qe: "q = (wrap16 x dx, wrap16 y dy, wrap16 z dz)" by (simp add: o3e)
  from a qe have "wrap16 x dx \<in> {7, 8}" "wrap16 y dy \<in> {7, 8}" "wrap16 z dz \<in> {7, 8}"
    using block_alive_cell [of "wrap16 x dx" "wrap16 y dy" "wrap16 z dz"] by simp_all
  with lt d have "x \<in> {6..9}" "y \<in> {6..9}" "z \<in> {6..9}"
    by (blast intro: wrap16_near)+
  then show ?thesis by (simp add: xyz)
qed

lemma game_next_generation_living:
  "unat (living (snd (game_next_generation st))) =
     length (filter (next_alive (cells_g2 st) (rules st)) all_cells)"
  by (simp add: game_next_generation_eq unat_living)

lemma block_living_small: "unat (living (snd (game_next_generation (block_state k)))) \<le> 64"
proof -
  let ?P = "next_alive block_grid (rules (block_state k))"
  have g: "cells_g2 (block_state k) = block_grid" by (simp add: block_state_def)
  have "length (filter ?P all_cells) = card (set (filter ?P all_cells))"
    by (rule distinct_card [symmetric]) (simp add: all_cells_distinct)
  also have "\<dots> \<le> card ({6..9} \<times> {6..9} \<times> {6..9} :: (nat \<times> nat \<times> nat) set)"
    by (rule card_mono) (auto dest: block_next_region)
  also have "\<dots> = 64" by (simp add: card_cartesian_product)
  finally have "length (filter ?P all_cells) \<le> 64" .
  then show ?thesis by (simp only: game_next_generation_living g)
qed

lemma game_next_generation_hash_list:
  "game_next_generation (st\<lparr>hash_list := h\<rparr>) =
     (fst (game_next_generation st), (snd (game_next_generation st))\<lparr>hash_list := h\<rparr>)"
  by (simp add: game_next_generation_def Let_def split_beta)

lemma next_generation_bit:
  assumes "x < 16" "y < 16"
  shows "bit (cells_g2 (snd (game_next_generation st)) (x, y)) z \<longleftrightarrow>
     z < 16 \<and> next_alive (cells_g2 st) (rules st) (x, y, z)"
  using assms by (simp add: game_next_generation_eq bit_next_column)

lemma distinct_hashes_match_once:
  assumes "n \<le> 2 ^ 32"
  shows "length (filter (\<lambda>j. (of_nat j :: u32) = h) [0..<n]) \<le> 1"
proof -
  let ?l = "filter (\<lambda>j. (of_nat j :: u32) = h) [0..<n]"
  have "set ?l \<subseteq> {unat h}"
  proof
    fix j assume "j \<in> set ?l"
    then have j: "j < n" and e: "(of_nat j :: u32) = h" by simp_all
    from j assms have "j < 2 ^ 32" by simp
    then have "unat (of_nat j :: u32) = j" by (simp add: unat_of_nat)
    with e show "j \<in> {unat h}" by simp
  qed
  then have "card (set ?l) \<le> card {unat h}" by (intro card_mono) simp_all
  moreover have "length ?l = card (set ?l)" by (rule distinct_card [symmetric]) simp
  ultimately show ?thesis by simp
qed

section \<open>Supporting results\<close>

text \<open>
  The integer part of \<open>voxel(Vector3)\<close> and \<open>voxel_add\<close>: with the three converted
  coordinates inside \<open>[0, 16)\<close> the cell they name in the current write-buffer is
  overwritten (added to, for \<open>voxel_add\<close>), otherwise nothing is written.
\<close>

theorem voxel_v3_lattice:
  "voxel_v3 lattice (vx, vy, vz) c d =
     (if unat (lattice vx) < 16 \<and> unat (lattice vy) < 16 \<and> unat (lattice vz) < 16
      then d\<lparr>cube := (cube d)((unat (cubeBuffer d), unat (lattice vx), unat (lattice vy), unat (lattice vz)) := c)\<rparr>
      else d)
   \<and> voxel_add lattice (vx, vy, vz) c d =
     (if unat (lattice vx) < 16 \<and> unat (lattice vy) < 16 \<and> unat (lattice vz) < 16
      then d\<lparr>cube := (cube d)((unat (cubeBuffer d), unat (lattice vx), unat (lattice vy), unat (lattice vz)) :=
              Color_add (cube d (unat (cubeBuffer d), unat (lattice vx), unat (lattice vy), unat (lattice vz))) c)\<rparr>
      else d)"
  by (simp add: voxel_v3_def voxel_add_def voxel_at_def voxel_add_at_def voxel_at_test cur_def)

text \<open>
  A generation step decides every cell by the rule table entry of its neighbour count,
  counts the live cells of the new generation in \<open>living\<close>, and keeps the old
  generation in \<open>cells_g1\<close>.
\<close>

theorem game_next_generation_rule_table:
  "(\<forall>x<16. \<forall>y<16. \<forall>z<16.
      bit (cells_g2 (snd (game_next_generation st)) (x, y)) z =
        rule_bit (rules st (unat (count_neighbours (cells_g2 st) (of_nat x) (of_nat y) (of_nat z))))
          (bit (cells_g2 st (x, y)) z))
   \<and> unat (living (snd (game_next_generation st))) =
       length (filter (alive (cells_g2 (snd (game_next_generation st)))) all_cells)
   \<and> cells_g1 (snd (game_next_generation st)) = cells_g2 st"
proof (intro conjI allI impI)
  fix x y z :: nat
  assume "x < 16" "y < 16" "z < 16"
  then show "bit (cells_g2 (snd (game_next_generation st)) (x, y)) z =
        rule_bit (rules st (unat (count_neighbours (cells_g2 st) (of_nat x) (of_nat y) (of_nat z))))
          (bit (cells_g2 st (x, y)) z)"
    by (simp add: next_generation_bit next_alive_rule)
next
  have "filter (alive (cells_g2 (snd (game_next_generation st)))) all_cells =
      filter (next_alive (cells_g2 st) (rules st)) all_cells"
    by (rule filter_cong [OF refl]) (auto simp: all_cells_set alive_def next_generation_bit)
  then show "unat (living (snd (game_next_generation st))) =
       length (filter (alive (cells_g2 (snd (game_next_generation st)))) all_cells)"
    by (simp only: game_next_generation_living)
next
  show "cells_g1 (snd (game_next_generation st)) = cells_g2 st"
    by (rule game_next_generation_other)
qed

theorem game_next_generation_rule_table_witness:
  "(7 :: nat) < 16
   \<and> unat (count_neighbours (cells_g2 (block_state 0)) 7 7 7) = 7
   \<and> rules (block_state 0) 7 = LIVE
   \<and> bit (cells_g2 (snd (game_next_generation (block_state 0))) (7, 7)) 7
   \<and> cells_g1 (snd (game_next_generation (block_state 0))) = block_grid"
proof -
  have lt: "(7 :: nat) < 16" by simp
  have n: "(of_nat 7 :: i16) = 7" by simp
  have g: "cells_g2 (block_state 0) = block_grid" by (simp add: block_state_def)
  have c: "unat (count_neighbours (cells_g2 (block_state 0)) 7 7 7) = 7"
    by (simp only: g block_count)
  have r: "rules (block_state 0) 7 = LIVE" by (simp add: block_state_def)
  have o: "bit (cells_g2 (block_state 0) (7, 7)) 7" by (simp add: g block_grid_def)
  from game_next_generation_rule_table [of "block_state 0"] lt
  have "bit (cells_g2 (snd (game_next_generation (block_state 0))) (7, 7)) 7 =
        rule_bit (rules (block_state 0) (unat (count_neighbours (cells_g2 (block_state 0)) (of_nat 7) (of_nat 7) (of_nat 7))))
          (bit (cells_g2 (block_state 0) (7, 7)) 7)"
    by blast
  then have b: "bit (cells_g2 (snd (game_next_generation (block_state 0))) (7, 7)) 7"
    by (simp only: n c r o) (simp add: rule_bit_def)
  from game_next_generation_rule_table [of "block_state 0"]
  have "cells_g1 (snd (game_next_generation (block_state 0))) = cells_g2 (block_state 0)" by blast
  then have e: "cells_g1 (snd (game_next_generation (block_state 0))) = block_grid" by (simp only: g)
  from lt c r b e show ?thesis by (intro conjI)
qed

text \<open>
  With fewer than 256 recorded hashes and a population above zero after the step,
  \<open>game_progress\<close> returns. When the new hash equals at least 6 of the recorded hashes or
  the population is 500 or more, the rule table is reset to all-die and one further
  generation is computed, which leaves no live cell; the population is not reseeded, and
  \<open>hash_nr\<close>, \<open>hash_list\<close> and \<open>sequence\<close> stay. Otherwise the hash is recorded at index
  \<open>hash_nr\<close>, \<open>hash_nr\<close> is incremented and nothing else changes after the step.
\<close>

theorem game_progress_below_256:
  "unat (hash_nr st) < 256 \<and> living (snd (game_next_generation st)) \<noteq> 0 \<longrightarrow>
     (6 \<le> length (filter (\<lambda>j. hash_list st j = fst (game_next_generation st)) [0..<unat (hash_nr st)])
        \<or> 500 \<le> unat (living (snd (game_next_generation st)))
      \<longrightarrow> (\<exists>st'. game_progress rnd sample st = Some st'
             \<and> st' = snd (game_next_generation (game_rule_reset (snd (game_next_generation st))))
             \<and> (\<forall>i<27. rules st' i = DIE)
             \<and> living st' = 0
             \<and> (\<forall>x<16. \<forall>y<16. cells_g2 st' (x, y) = 0)
             \<and> cells_g1 st' = cells_g2 (snd (game_next_generation st))
             \<and> hash_nr st' = hash_nr st \<and> hash_list st' = hash_list st \<and> sequence st' = sequence st))
   \<and> (\<not> (6 \<le> length (filter (\<lambda>j. hash_list st j = fst (game_next_generation st)) [0..<unat (hash_nr st)])
          \<or> 500 \<le> unat (living (snd (game_next_generation st))))
      \<longrightarrow> game_progress rnd sample st =
            Some ((snd (game_next_generation st))
                    \<lparr>hash_list := (hash_list st)(unat (hash_nr st) := fst (game_next_generation st)),
                     hash_nr := hash_nr st + 1\<rparr>))"
proof (intro impI conjI)
  assume h: "unat (hash_nr st) < 256 \<and> living (snd (game_next_generation st)) \<noteq> 0"
    and c: "6 \<le> length (filter (\<lambda>j. hash_list st j = fst (game_next_generation st)) [0..<unat (hash_nr st)])
        \<or> 500 \<le> unat (living (snd (game_next_generation st)))"
  let ?s1 = "snd (game_next_generation st)"
  from game_progress_scan [OF h [THEN conjunct1] h [THEN conjunct2], of rnd sample] c
  have "game_progress rnd sample st = Some (snd (game_next_generation (game_rule_reset ?s1)))"
    by (simp only: if_True)
  with rule_reset_generation [of ?s1]
  show "\<exists>st'. game_progress rnd sample st = Some st'
             \<and> st' = snd (game_next_generation (game_rule_reset ?s1))
             \<and> (\<forall>i<27. rules st' i = DIE)
             \<and> living st' = 0
             \<and> (\<forall>x<16. \<forall>y<16. cells_g2 st' (x, y) = 0)
             \<and> cells_g1 st' = cells_g2 ?s1
             \<and> hash_nr st' = hash_nr st \<and> hash_list st' = hash_list st \<and> sequence st' = sequence st"
    by (simp add: game_next_generation_other)
next
  assume h: "unat (hash_nr st) < 256 \<and> living (snd (game_next_generation st)) \<noteq> 0"
    and c: "\<not> (6 \<le> length (filter (\<lambda>j. hash_list st j = fst (game_next_generation st)) [0..<unat (hash_nr st)])
        \<or> 500 \<le> unat (living (snd (game_next_generation st))))"
  from game_progress_scan [OF h [THEN conjunct1] h [THEN conjunct2], of rnd sample] c
  show "game_progress rnd sample st =
            Some ((snd (game_next_generation st))
                    \<lparr>hash_list := (hash_list st)(unat (hash_nr st) := fst (game_next_generation st)),
                     hash_nr := hash_nr st + 1\<rparr>)"
    by (simp only: if_False)
qed

theorem game_progress_below_256_witness:
  "unat (hash_nr stagnant_state) < 256
   \<and> living (snd (game_next_generation stagnant_state)) \<noteq> 0
   \<and> (\<exists>st'. game_progress 0 (\<lambda>_. (0, 0, 0)) stagnant_state = Some st'
         \<and> rules st' 7 = DIE \<and> living st' = 0 \<and> cells_g2 st' (7, 7) = 0 \<and> hash_nr st' = 6)
   \<and> unat (hash_nr (block_state 3)) < 256
   \<and> living (snd (game_next_generation (block_state 3))) \<noteq> 0
   \<and> (\<exists>st'. game_progress 0 (\<lambda>_. (0, 0, 0)) (block_state 3) = Some st'
         \<and> rules st' 7 = LIVE \<and> hash_nr st' = 4
         \<and> hash_list st' 3 = fst (game_next_generation (block_state 3)))"
proof -
  let ?s = "\<lambda>_ :: nat. (0, 0, 0) :: u16 \<times> u16 \<times> u16"
  text \<open>The stagnant branch: six recorded hashes, all equal to the hash of the block.\<close>
  have sn: "snd (game_next_generation stagnant_state) =
      (snd (game_next_generation (block_state 6)))\<lparr>hash_list := (\<lambda>_. fst (game_next_generation (block_state 6)))\<rparr>"
    and sh: "fst (game_next_generation stagnant_state) = fst (game_next_generation (block_state 6))"
    unfolding stagnant_state_def by (simp_all add: game_next_generation_hash_list)
  have a1: "unat (hash_nr stagnant_state) < 256" by (simp add: stagnant_state_def block_state_def)
  have a2: "living (snd (game_next_generation stagnant_state)) \<noteq> 0"
    using block_alive [of 6] by (simp add: sn)
  have six: "unat (hash_nr stagnant_state) = 6" by (simp add: stagnant_state_def block_state_def)
  have "filter (\<lambda>j. hash_list stagnant_state j = fst (game_next_generation stagnant_state)) [0..<6] = [0..<6]"
    by (simp only: sh filter_id_conv) (simp add: stagnant_state_def)
  then have a3: "6 \<le> length (filter (\<lambda>j. hash_list stagnant_state j = fst (game_next_generation stagnant_state))
      [0..<unat (hash_nr stagnant_state)])"
    by (simp only: six) simp
  from game_progress_below_256 [of stagnant_state 0 ?s] a1 a2 a3
  obtain st1 where st1: "game_progress 0 ?s stagnant_state = Some st1"
    "\<forall>i<27. rules st1 i = DIE" "living st1 = 0" "\<forall>x<16. \<forall>y<16. cells_g2 st1 (x, y) = 0"
    "hash_nr st1 = hash_nr stagnant_state"
    by blast
  have b: "\<exists>st'. game_progress 0 ?s stagnant_state = Some st'
         \<and> rules st' 7 = DIE \<and> living st' = 0 \<and> cells_g2 st' (7, 7) = 0 \<and> hash_nr st' = 6"
    using st1 by (intro exI [of _ st1]) (simp add: stagnant_state_def block_state_def)
  text \<open>The other branch: three recorded hashes, the block alive and small.\<close>
  have c1: "unat (hash_nr (block_state 3)) < 256" by (simp add: block_state_def)
  have c2: "living (snd (game_next_generation (block_state 3))) \<noteq> 0" by (rule block_alive)
  have three: "unat (hash_nr (block_state 3)) = 3" by (simp add: block_state_def)
  have "length (filter (\<lambda>j. hash_list (block_state 3) j = fst (game_next_generation (block_state 3)))
      [0..<unat (hash_nr (block_state 3))]) \<le> length [0..<unat (hash_nr (block_state 3))]"
    by (rule length_filter_le)
  then have "length (filter (\<lambda>j. hash_list (block_state 3) j = fst (game_next_generation (block_state 3)))
      [0..<unat (hash_nr (block_state 3))]) \<le> 3"
    by (simp only: three) simp
  with block_living_small [of 3]
  have c3: "\<not> (6 \<le> length (filter (\<lambda>j. hash_list (block_state 3) j = fst (game_next_generation (block_state 3)))
      [0..<unat (hash_nr (block_state 3))])
      \<or> 500 \<le> unat (living (snd (game_next_generation (block_state 3)))))"
    by linarith
  from game_progress_below_256 [of "block_state 3" 0 ?s] c1 c2 c3
  have "game_progress 0 ?s (block_state 3) =
      Some ((snd (game_next_generation (block_state 3)))
              \<lparr>hash_list := (hash_list (block_state 3))(unat (hash_nr (block_state 3)) :=
                   fst (game_next_generation (block_state 3))),
               hash_nr := hash_nr (block_state 3) + 1\<rparr>)"
    by blast
  then have d: "\<exists>st'. game_progress 0 ?s (block_state 3) = Some st'
         \<and> rules st' 7 = LIVE \<and> hash_nr st' = 4
         \<and> hash_list st' 3 = fst (game_next_generation (block_state 3))"
    by (simp add: game_next_generation_other three) (simp add: block_state_def)
  from a1 a2 b c1 c2 d show ?thesis by (intro conjI)
qed

section \<open>Claims\<close>

text \<open>
  C1. \<open>voxel(x, y, z, c)\<close> on unsigned 8-bit coordinates: when one of them is 16 or more
  the display is returned as it was (no write); when all three are below 16 the cell
  \<open>(x, y, z)\<close> of the current write-buffer becomes exactly \<open>c\<close> and every other cell of
  \<open>cube\<close>, the selector and the raw buffer are unchanged. The test the code makes is the
  single masked test \<open>((x | y | z) & 0xF0) == 0\<close>, which holds exactly when all three are
  below 16.
\<close>

theorem voxel_masked_bounds:
  "(((x OR y OR z) AND 0xF0 = 0) = (unat x < 16 \<and> unat y < 16 \<and> unat z < 16))
   \<and> voxel x y z c d =
       (if unat x < 16 \<and> unat y < 16 \<and> unat z < 16
        then d\<lparr>cube := (cube d)((unat (cubeBuffer d), unat x, unat y, unat z) := c)\<rparr>
        else d)"
  by (simp add: voxel_def voxel_test cur_def)




text \<open>
  C6, as amended. After every \<open>update\<close> of a display whose selector is 0 or 1: the
  selector has flipped; every cell of the newly selected write-buffer is black; the
  other buffer holds the previous frame's write-buffer exactly as the client left it
  (\<open>update\<close> blends a copy of each cell, the blended frame goes to \<open>rawBuffer\<close> only and
  \<open>cube\<close> is not written); and whatever sequence of \<open>voxel\<close>, \<open>voxel_add\<close>, \<open>radiate\<close>
  and \<open>radiate5\<close> calls the client makes in the following frame, the selector and the
  other buffer stay as they are.
\<close>

theorem update_after:
  assumes "Display_ok d"
  shows "cubeBuffer (update blur d) = 1 - cubeBuffer d
    \<and> cubeBuffer (update blur d) \<noteq> cubeBuffer d
    \<and> Display_ok (update blur d)
    \<and> (\<forall>x y z. cube (update blur d) (unat (cubeBuffer (update blur d)), x, y, z) = BLACK)
    \<and> (\<forall>x y z. cube (update blur d) (unat (cubeBuffer d), x, y, z) = cube d (unat (cubeBuffer d), x, y, z))
    \<and> (\<forall>x<16. \<forall>y<16. \<forall>z<16. \<forall>k<3. rawBuffer (update blur d) (x, y, z, k) = chan k (blended blur d x y z))
    \<and> (\<forall>e. (client_write lattice)\<^sup>*\<^sup>* (update blur d) e \<longrightarrow>
          cubeBuffer e = cubeBuffer (update blur d) \<and>
          (\<forall>x y z. cube e (unat (cubeBuffer d), x, y, z) = cube d (unat (cubeBuffer d), x, y, z)))"
proof -
  have neq: "unat (1 - cubeBuffer d) \<noteq> unat (cubeBuffer d)" by (rule flip_neq [OF assms])
  have a: "cubeBuffer (update blur d) = 1 - cubeBuffer d" by (rule update_cubeBuffer)
  have b: "cubeBuffer (update blur d) \<noteq> cubeBuffer d"
  proof
    assume "cubeBuffer (update blur d) = cubeBuffer d"
    with a have "1 - cubeBuffer d = cubeBuffer d" by (simp only:)
    then have "unat (1 - cubeBuffer d) = unat (cubeBuffer d)" by (rule arg_cong)
    with neq show False by (simp only:)
  qed
  have c: "\<forall>x y z. cube (update blur d) (unat (cubeBuffer (update blur d)), x, y, z) = BLACK"
    by (simp add: update_cube a)
  have d: "\<forall>x y z. cube (update blur d) (unat (cubeBuffer d), x, y, z) = cube d (unat (cubeBuffer d), x, y, z)"
    using neq by (simp add: update_cube)
  have e: "\<forall>x<16. \<forall>y<16. \<forall>z<16. \<forall>k<3. rawBuffer (update blur d) (x, y, z, k) = chan k (blended blur d x y z)"
    by (simp add: update_raw)
  have f: "\<forall>e. (client_write lattice)\<^sup>*\<^sup>* (update blur d) e \<longrightarrow>
          cubeBuffer e = cubeBuffer (update blur d) \<and>
          (\<forall>x y z. cube e (unat (cubeBuffer d), x, y, z) = cube d (unat (cubeBuffer d), x, y, z))"
  proof (intro allI impI)
    fix e assume "(client_write lattice)\<^sup>*\<^sup>* (update blur d) e"
    then have so: "same_outside (update blur d) e" by (rule client_writes_frame)
    then have "cubeBuffer e = cubeBuffer (update blur d)" by (simp add: same_outside_def)
    moreover have "\<forall>x y z. cube e (unat (cubeBuffer d), x, y, z) = cube (update blur d) (unat (cubeBuffer d), x, y, z)"
      using so neq by (simp add: same_outside_def a)
    ultimately show "cubeBuffer e = cubeBuffer (update blur d) \<and>
          (\<forall>x y z. cube e (unat (cubeBuffer d), x, y, z) = cube d (unat (cubeBuffer d), x, y, z))"
      using d by simp
  qed
  from a b c d e f update_ok [OF assms] show ?thesis by blast
qed

theorem update_after_witness:
  "Display_ok (voxel 0 0 0 RED Display_zero)
   \<and> cubeBuffer (update 255 (voxel 0 0 0 RED Display_zero)) = 1
   \<and> cube (update 255 (voxel 0 0 0 RED Display_zero)) (1, 0, 0, 0) = BLACK
   \<and> cube (update 255 (voxel 0 0 0 RED Display_zero)) (0, 0, 0, 0) = RED
   \<and> rawBuffer (update 255 (voxel 0 0 0 RED Display_zero)) (0, 0, 0, 0) = 0
   \<and> (client_write lattice_exact)\<^sup>*\<^sup>* (update 255 (voxel 0 0 0 RED Display_zero))
        (voxel 0 0 0 BLACK (update 255 (voxel 0 0 0 RED Display_zero)))
   \<and> cube (voxel 0 0 0 BLACK (update 255 (voxel 0 0 0 RED Display_zero))) (0, 0, 0, 0) = RED"
proof -
  have ok: "Display_ok (voxel 0 0 0 RED Display_zero)"
    by (simp add: Display_ok_def voxel_def Display_zero_def)
  have w: "(client_write lattice_exact)\<^sup>*\<^sup>* (update 255 (voxel 0 0 0 RED Display_zero))
        (voxel 0 0 0 BLACK (update 255 (voxel 0 0 0 RED Display_zero)))"
    by (rule r_into_rtranclp) (rule write_voxel)
  have sel: "cubeBuffer (voxel 0 0 0 RED Display_zero) = 0"
    by (simp add: voxel_def Display_zero_def)
  have c: "cube (voxel 0 0 0 RED Display_zero) (0, 0, 0, 0) = RED"
    by (simp add: voxel_def Display_zero_def cur_def)
  have bl: "blended 255 (voxel 0 0 0 RED Display_zero) 0 0 0 = BLACK"
    by (simp add: blended_def Color_blend_255 voxel_def Display_zero_def cur_def)
  from update_after [OF ok, of 255 lattice_exact] w ok show ?thesis
    by (simp add: update_cubeBuffer sel c bl chan_def BLACK_def)
qed

text \<open>
  C6 as stated fails: the other buffer does not hold the blended frame. One red cell
  written, then an advance at weight 255: the raw frame's cell is black (the blend
  retains the black previous frame), the other buffer's cell is still red.
\<close>

theorem update_keeps_unblended_frame:
  "Display_ok (voxel 0 0 0 RED Display_zero)
   \<and> chan 0 (cube (update 255 (voxel 0 0 0 RED Display_zero))
               (unat (1 - cubeBuffer (update 255 (voxel 0 0 0 RED Display_zero))), 0, 0, 0))
     \<noteq> rawBuffer (update 255 (voxel 0 0 0 RED Display_zero)) (0, 0, 0, 0)"
  by (simp add: update_raw update_cube update_cubeBuffer blended_def Color_blend_255 chan_def
        voxel_def cur_def Display_zero_def Display_ok_def RED_def BLACK_def)

text \<open>
  C7. For every cell \<open>(x, y, z)\<close> with coordinates in \<open>[0, 16)\<close>, \<open>count_neighbours\<close>
  returns the number of live cells among the cells \<open>neighbours26 x y z\<close>: these are 26
  distinct cells, none of them the cell itself, namely the cells at the offsets of the
  3x3x3 block other than \<open>(0, 0, 0)\<close>, each coordinate taken modulo 16 (so the cells of
  the opposite face are neighbours of an edge cell). The result is at most 26.
\<close>

theorem count_neighbours_toroidal:
  assumes "x < 16" "y < 16" "z < 16"
  shows "unat (count_neighbours g1 (of_nat x) (of_nat y) (of_nat z)) = length (filter (alive g1) (neighbours26 x y z))
    \<and> length (neighbours26 x y z) = 26
    \<and> distinct (neighbours26 x y z)
    \<and> (x, y, z) \<notin> set (neighbours26 x y z)
    \<and> set (neighbours26 x y z) =
        (\<lambda>(dx, dy, dz). (nat ((int x + dx) mod 16), nat ((int y + dy) mod 16), nat ((int z + dz) mod 16))) `
          ({-1, 0, 1} \<times> {-1, 0, 1} \<times> {-1, 0, 1} - {(0, 0, 0)})
    \<and> unat (count_neighbours g1 (of_nat x) (of_nat y) (of_nat z)) \<le> 26"
  using count_neighbours_spec [OF assms] neighbours26_length [of x y z] neighbours26_distinct [OF assms]
    neighbours26_set [of x y z] count_neighbours_le_26 [OF assms]
  by (intro conjI) (erule conjunct1 conjunct2 | assumption)+

theorem count_neighbours_toroidal_witness:
  "(0 :: nat) < 16
   \<and> unat (count_neighbours corner_grid 0 0 0) = 1
   \<and> (15, 15, 15) \<in> set (neighbours26 0 0 0)
   \<and> (0, 0, 0) \<notin> set (neighbours26 0 0 0)"
proof -
  have lt: "(0 :: nat) < 16" by simp
  have z: "(of_nat 0 :: i16) = 0" by simp
  note T = count_neighbours_toroidal [OF lt lt lt, of corner_grid]
  from T [THEN conjunct1] have c: "unat (count_neighbours corner_grid 0 0 0) =
      length (filter (alive corner_grid) (neighbours26 0 0 0))"
    by (simp only: z)
  from T have n: "(0, 0, 0) \<notin> set (neighbours26 0 0 0)" by blast
  have "length (filter (alive corner_grid) (neighbours26 0 0 0)) = 1"
    by (simp add: neighbours26_explicit wrap16_def alive_def corner_grid_def bit_exp_iff)
  with c have c1: "unat (count_neighbours corner_grid 0 0 0) = 1" by (simp only:)
  have m: "(15, 15, 15) \<in> set (neighbours26 0 0 0)"
    by (simp add: neighbours26_explicit wrap16_def)
  from lt c1 m n show ?thesis by (intro conjI)
qed

text \<open>
  C8. Whenever the generation step inside \<open>game_progress\<close> leaves the population at
  zero, \<open>game_progress\<close> returns with the game reseeded: \<open>hash_nr\<close> and the previous
  generation \<open>cells_g1\<close> are reset, the rule table is the preset selected by \<open>sequence\<close>
  (every entry \<open>DIE\<close> but the preset's), \<open>sequence\<close> has moved to the next preset (1, 2, 3
  and then 0 again), the cells of \<open>cells_g2\<close> are exactly those that the draws of
  \<open>game_randomize\<close> placed, and the population count \<open>living\<close> is the preset's amount,
  which is greater than 0. Under an all-die rule table every population (a single live
  cell too) is at zero after one step.
\<close>

theorem game_progress_extinct:
  "(living (snd (game_next_generation st)) = 0 \<longrightarrow>
      (\<exists>st'. game_progress rnd sample st = Some st'
         \<and> sequence st' = next_sequence (sequence st)
         \<and> (\<forall>i<27. rules st' i = preset_rules (sequence st) i)
         \<and> hash_nr st' = 0
         \<and> (\<forall>x<16. \<forall>y<16. cells_g1 st' (x, y) = 0)
         \<and> (\<forall>x<16. \<forall>y<16. \<forall>z. bit (cells_g2 st' (x, y)) z \<longleftrightarrow>
               (\<exists>i < unat (preset_amount (sequence st) rnd). placed (sample i) (x, y, z)))
         \<and> living st' = preset_amount (sequence st) rnd
         \<and> 0 < unat (living st')))
   \<and> ((\<forall>i<27. rules st i = DIE) \<longrightarrow> living (snd (game_next_generation st)) = 0)"
proof (intro conjI impI)
  assume ex: "living (snd (game_next_generation st)) = 0"
  let ?s1 = "game_reset (snd (game_next_generation st))"
  let ?s2 = "reseed rnd sample ?s1"
  have seq: "sequence ?s1 = sequence st"
    by (simp add: game_reset_fields game_next_generation_other)
  have die: "\<forall>i<27. rules ?s1 i = DIE" by (simp add: game_reset_fields)
  have "game_progress rnd sample st = Some ?s2" by (rule game_progress_extinct_eq [OF ex])
  moreover have "sequence ?s2 = next_sequence (sequence st)" by (simp only: reseed_fields seq)
  moreover have "\<forall>i<27. rules ?s2 i = preset_rules (sequence st) i"
    using reseed_rules [OF die, of _ rnd sample] by (simp only: seq) blast
  moreover have "hash_nr ?s2 = 0" by (simp only: reseed_fields game_reset_fields)
  moreover have "\<forall>x<16. \<forall>y<16. cells_g1 ?s2 (x, y) = 0"
    by (simp add: reseed_fields game_reset_fields)
  moreover have "\<forall>x<16. \<forall>y<16. \<forall>z. bit (cells_g2 ?s2 (x, y)) z \<longleftrightarrow>
               (\<exists>i < unat (preset_amount (sequence st) rnd). placed (sample i) (x, y, z))"
    using reseed_cells [of _ _ rnd sample ?s1] by (simp only: seq) blast
  moreover have "living ?s2 = preset_amount (sequence st) rnd" by (simp only: reseed_fields seq)
  moreover have "0 < unat (living ?s2)"
    using preset_amount_pos [of "sequence st" rnd] by (simp only: reseed_fields seq)
  ultimately show "\<exists>st'. game_progress rnd sample st = Some st'
         \<and> sequence st' = next_sequence (sequence st)
         \<and> (\<forall>i<27. rules st' i = preset_rules (sequence st) i)
         \<and> hash_nr st' = 0
         \<and> (\<forall>x<16. \<forall>y<16. cells_g1 st' (x, y) = 0)
         \<and> (\<forall>x<16. \<forall>y<16. \<forall>z. bit (cells_g2 st' (x, y)) z \<longleftrightarrow>
               (\<exists>i < unat (preset_amount (sequence st) rnd). placed (sample i) (x, y, z)))
         \<and> living st' = preset_amount (sequence st) rnd
         \<and> 0 < unat (living st')"
    by blast
next
  assume "\<forall>i<27. rules st i = DIE"
  then show "living (snd (game_next_generation st)) = 0" by (rule all_die_living)
qed

theorem game_progress_extinct_witness:
  "rules single_cell_state = (\<lambda>_. DIE)
   \<and> living (snd (game_next_generation single_cell_state)) = 0
   \<and> (\<exists>st'. game_progress 7 (\<lambda>_. (1, 2, 3)) single_cell_state = Some st'
         \<and> sequence st' = 1 \<and> rules st' 4 = LIVE \<and> rules st' 5 = BIRTH \<and> rules st' 6 = DIE
         \<and> hash_nr st' = 0 \<and> living st' = 207 \<and> bit (cells_g2 st' (1, 2)) 3)"
proof -
  note T = game_progress_extinct [of single_cell_state 7 "\<lambda>_. (1, 2, 3)"]
  have die: "rules single_cell_state = (\<lambda>_. DIE)" by (simp add: single_cell_state_def)
  then have "\<forall>i<27. rules single_cell_state i = DIE" by simp
  with T have ex: "living (snd (game_next_generation single_cell_state)) = 0" by blast
  with T obtain st' where st':
    "game_progress 7 (\<lambda>_. (1, 2, 3)) single_cell_state = Some st'"
    "sequence st' = next_sequence (sequence single_cell_state)"
    "\<forall>i<27. rules st' i = preset_rules (sequence single_cell_state) i"
    "hash_nr st' = 0"
    "\<forall>x<16. \<forall>y<16. \<forall>z. bit (cells_g2 st' (x, y)) z \<longleftrightarrow>
       (\<exists>i < unat (preset_amount (sequence single_cell_state) 7). placed ((1, 2, 3) :: u16 \<times> u16 \<times> u16) (x, y, z))"
    "living st' = preset_amount (sequence single_cell_state) 7"
    by blast
  have s0: "sequence single_cell_state = 0" by (simp add: single_cell_state_def)
  have a: "sequence st' = 1" using st'(2) by (simp add: s0 next_sequence_def)
  have b: "rules st' 4 = LIVE \<and> rules st' 5 = BIRTH \<and> rules st' 6 = DIE"
    using st'(3) by (simp add: s0 preset_rules_def)
  have c: "living st' = 207" using st'(6) by (simp add: s0 preset_amount_def)
  have e: "bit (cells_g2 st' (1, 2)) 3 \<longleftrightarrow>
       (\<exists>i < unat (preset_amount (sequence single_cell_state) 7). placed ((1, 2, 3) :: u16 \<times> u16 \<times> u16) (1, 2, 3))"
    using st'(5) by simp
  have "(0 :: nat) < unat (preset_amount (sequence single_cell_state) 7)
      \<and> placed ((1, 2, 3) :: u16 \<times> u16 \<times> u16) (1, 2, 3)"
    by (simp add: s0 preset_amount_def placed_def)
  then have "\<exists>i < unat (preset_amount (sequence single_cell_state) 7). placed ((1, 2, 3) :: u16 \<times> u16 \<times> u16) (1, 2, 3)"
    by (rule exI)
  with e have d: "bit (cells_g2 st' (1, 2)) 3" by (simp only:)
  from die ex st'(1) a b st'(4) c d show ?thesis by blast
qed

text \<open>
  C9 fails at a state the scan cannot leave. \<open>block_state 256\<close>: 256 hashes recorded, the
  2x2x2 block alive after the step, the population above zero and below 500, fewer than 6
  of the recorded hashes equal to the new one. The claim has the hash recorded and no rule
  changed; \<open>game_progress\<close> does not return.
\<close>

theorem game_progress_hangs_at_256:
  "hash_nr (block_state 256) = 256
   \<and> living (snd (game_next_generation (block_state 256))) \<noteq> 0
   \<and> unat (living (snd (game_next_generation (block_state 256)))) < 500
   \<and> length (filter (\<lambda>j. hash_list (block_state 256) j = fst (game_next_generation (block_state 256)))
        [0..<256]) < 6
   \<and> game_progress 0 (\<lambda>_. (0, 0, 0)) (block_state 256) = None"
proof -
  have h: "hash_nr (block_state 256) = 256" by (simp add: block_state_def)
  then have "scan_hashes (hash_list (block_state 256)) (hash_nr (block_state 256))
      (fst (game_next_generation (block_state 256))) 0 0 = None"
    by (intro scan_diverges) simp
  with block_alive [of 256] have n: "game_progress 0 (\<lambda>_. (0, 0, 0)) (block_state 256) = None"
    by (simp add: game_progress_alive_eq)
  have s: "unat (living (snd (game_next_generation (block_state 256)))) < 500"
    using block_living_small [of 256] by simp
  have hl: "hash_list (block_state 256) = of_nat" by (simp add: block_state_def)
  have "length (filter (\<lambda>j. (of_nat j :: u32) = fst (game_next_generation (block_state 256))) [0..<256]) \<le> 1"
    by (rule distinct_hashes_match_once) simp
  then have m: "length (filter (\<lambda>j. hash_list (block_state 256) j = fst (game_next_generation (block_state 256)))
        [0..<256]) < 6"
    by (simp add: hl)
  from h block_alive [of 256] s m n show ?thesis by (intro conjI)
qed

text \<open>
  C10 fails. The scan over \<open>hash_list\<close> returns exactly when \<open>hash_nr\<close> is below 256: its
  8-bit index wraps from 255 to 0 and so stays below every \<open>hash_nr\<close> of 256 or more,
  and the second test \<open>i <= 255\<close> holds for every 8-bit value. With 256 or more recorded
  hashes and a population above zero after the step, \<open>game_progress\<close> does not return.
\<close>

theorem scan_hashes_never_returns:
  "(256 \<le> unat hnr \<longrightarrow> scan_hashes hl hnr hash i matches = None)
   \<and> (unat hnr < 256 \<longrightarrow> scan_hashes hl hnr hash 0 0 \<noteq> None)
   \<and> (256 \<le> unat (hash_nr st) \<and> living (snd (game_next_generation st)) \<noteq> 0 \<longrightarrow>
        game_progress rnd sample st = None)"
proof (intro conjI impI)
  assume "256 \<le> unat hnr"
  then show "scan_hashes hl hnr hash i matches = None" by (rule scan_diverges)
next
  assume "unat hnr < 256"
  then have "unat hnr \<le> 255" by simp
  from scan_terminates [OF this] show "scan_hashes hl hnr hash 0 0 \<noteq> None" by simp
next
  assume a: "256 \<le> unat (hash_nr st) \<and> living (snd (game_next_generation st)) \<noteq> 0"
  then have "scan_hashes (hash_list st) (hash_nr st) (fst (game_next_generation st)) 0 0 = None"
    by (intro scan_diverges) simp
  with a show "game_progress rnd sample st = None"
    by (simp add: game_progress_alive_eq)
qed

theorem scan_hashes_never_returns_witness:
  "256 \<le> unat (hash_nr (block_state 4096))
   \<and> living (snd (game_next_generation (block_state 4096))) \<noteq> 0
   \<and> game_progress 0 (\<lambda>_. (0, 0, 0)) (block_state 4096) = None
   \<and> scan_hashes (\<lambda>_. 0) 256 0 0 0 = None
   \<and> scan_hashes (\<lambda>_. 0) 255 0 0 0 \<noteq> None"
proof -
  have h: "256 \<le> unat (hash_nr (block_state 4096))" by (simp add: block_state_def)
  have s: "256 \<le> unat (256 :: u32)" "unat (255 :: u32) < 256" by simp_all
  from scan_hashes_never_returns [of "hash_nr (block_state 4096)" "\<lambda>_. 0" 0 0 0 "block_state 4096" 0 "\<lambda>_. (0, 0, 0)"]
    scan_hashes_never_returns [of 256 "\<lambda>_. 0" 0 0 0 "block_state 4096" 0 "\<lambda>_. (0, 0, 0)"]
    scan_hashes_never_returns [of 255 "\<lambda>_. 0" 0 0 0 "block_state 4096" 0 "\<lambda>_. (0, 0, 0)"]
    h s block_alive [of 4096]
  show ?thesis by blast
qed

end
